theory Spec2Isabelle
  imports Main
begin

section \<open>JavaScript values used by bot.mjs\<close>

text \<open>
  A JavaScript string is modelled by a HOL string holding the UTF-8 bytes of the text.
  An awaited call either returns a value or throws; the message of the exception is kept.
\<close>

datatype 'a outcome = Returned 'a | Thrown string

text \<open>
  The Supabase client answers with an object \<open>{ data, error }\<close>; \<open>null\<close> and
  \<open>undefined\<close> are \<open>None\<close>. An \<open>error\<close> that is present is truthy.
\<close>

record 'a response =
  data :: "'a option"
  error :: "string option"

text \<open>
  \<open>String.prototype.toLowerCase\<close>, given on the ASCII letters. On other code points
  JavaScript may change the text where this function does not, but no code point outside
  ASCII has a lower-case form that contains one of the characters of \<open>.pdf\<close>, so the test
  \<open>toLowerCase().endsWith('.pdf')\<close> has the same value in both.
\<close>

definition toLowerChar :: "char \<Rightarrow> char" where
  "toLowerChar c =
     (case map_of (zip ''ABCDEFGHIJKLMNOPQRSTUVWXYZ'' ''abcdefghijklmnopqrstuvwxyz'') c of
        Some l \<Rightarrow> l
      | None \<Rightarrow> c)"

definition toLowerCase :: "string \<Rightarrow> string" where
  "toLowerCase s = map toLowerChar s"

definition endsWith :: "string \<Rightarrow> string \<Rightarrow> bool" where
  "endsWith s suf = (length suf \<le> length s \<and> drop (length s - length suf) s = suf)"

text \<open>
  Iterating a string yields its code points: in UTF-8 the first byte of a code point
  tells how many bytes follow.
\<close>

function code_points :: "string \<Rightarrow> string list" where
  "code_points [] = []"
| "code_points (c # cs) =
     (let k = (if (of_char c :: nat) < 0x80 then 0
               else if (of_char c :: nat) < 0xE0 then 1
               else if (of_char c :: nat) < 0xF0 then 2
               else (3::nat))
      in (c # take k cs) # code_points (drop k cs))"
  by pat_completeness auto
termination
  by (relation "measure length") auto

subsection \<open>JSON values and the built-in Set\<close>

text \<open>
  What \<open>JSON.parse\<close> can return. The type \<open>'n\<close> stands for the numbers (IEEE doubles,
  compared by value).
\<close>

datatype 'n json =
    JNull
  | JBool bool
  | JNumber 'n
  | JString string
  | JArray "'n json list"
  | JObject "(string \<times> 'n json) list"

text \<open>
  A \<open>Set\<close> keeps its members in insertion order, so it is a list here. Membership is
  SameValueZero: primitives are compared by value, arrays and objects by reference, and
  every array or object that comes out of \<open>JSON.parse\<close> is a fresh reference.
\<close>

fun primitive :: "'n json \<Rightarrow> bool" where
  "primitive (JArray _) = False"
| "primitive (JObject _) = False"
| "primitive _ = True"

definition Set_has :: "'n json list \<Rightarrow> 'n json \<Rightarrow> bool" where
  "Set_has s v = (primitive v \<and> v \<in> set s)"

definition Set_add :: "'n json list \<Rightarrow> 'n json \<Rightarrow> 'n json list" where
  "Set_add s v = (if Set_has s v then s else s @ [v])"

text \<open>
  \<open>new Set(v)\<close>: \<open>null\<close> gives the empty set, an array its elements, a string its code
  points; any other value is not iterable and the constructor throws a TypeError.
\<close>

fun new_Set :: "'n json \<Rightarrow> 'n json list outcome" where
  "new_Set JNull = Returned []"
| "new_Set (JArray xs) = Returned (foldl Set_add [] xs)"
| "new_Set (JString s) = Returned (foldl Set_add [] (map JString (code_points s)))"
| "new_Set _ = Thrown ''TypeError: value is not iterable''"

section \<open>Helpers: sent cache\<close>

text \<open>The file \<open>sent_cache.json\<close> as \<open>fs\<close> finds it.\<close>

datatype file_state = Missing | Unreadable | Content string

fun readFileSync :: "file_state \<Rightarrow> string outcome" where
  "readFileSync Missing = Thrown ''ENOENT''"
| "readFileSync Unreadable = Thrown ''EACCES''"
| "readFileSync (Content t) = Returned t"

text \<open>
  The body of the \<open>try\<close> block of \<open>loadSentCache\<close>. \<open>JSON.parse\<close> is the runtime's; it is
  a parameter that throws on a text that is not JSON.
\<close>

definition loadSentCache_try ::
  "(string \<Rightarrow> 'n json outcome) \<Rightarrow> file_state \<Rightarrow> 'n json list outcome" where
  "loadSentCache_try JSON_parse file =
     (case readFileSync file of
        Thrown e \<Rightarrow> Thrown e
      | Returned t \<Rightarrow>
          (case JSON_parse t of
             Thrown e \<Rightarrow> Thrown e
           | Returned v \<Rightarrow> new_Set v))"

definition loadSentCache ::
  "(string \<Rightarrow> 'n json outcome) \<Rightarrow> file_state \<Rightarrow> 'n json list" where
  "loadSentCache JSON_parse file =
     (case loadSentCache_try JSON_parse file of
        Returned s \<Rightarrow> s
      | Thrown _ \<Rightarrow> [])"

text \<open>
  \<open>fs.writeFileSync\<close> either writes the text or throws, leaving the file in some state.
\<close>

datatype write_result = Written | WriteFailed file_state

section \<open>The collaborators of one polling cycle\<close>

text \<open>
  A row of \<open>messages_outbox\<close>. The source's column names are \<open>id\<close>, \<open>to\<close>, \<open>message\<close>,
  \<open>sent_at\<close> and \<open>wa_msg_id\<close>.
\<close>

record outbox_row =
  row_id :: nat
  row_to :: "string option"
  row_message :: "string option"
  sent_at :: "string option"
  wa_msg_id :: "string option"

text \<open>How a request to the database ends: applied, answered with an error, or thrown.\<close>

datatype db_status = Applied | Refused string | Failed string

record file_object =
  name :: "string option"

record pub =
  publicUrl :: "string option"

text \<open>
  The environment of a cycle. Calls made inside a loop are indexed by the position of the
  entry being processed, so that two calls with the same arguments may end differently.
  \<open>sendMessage\<close> returns \<open>res?.key?.id\<close> of the receipt.
\<close>

record 'n env =
  GROUP_JID :: string
  storage_list :: "file_object list response outcome"
  getPublicUrl :: "nat \<Rightarrow> string \<Rightarrow> pub response outcome"
  sendMessage :: "nat \<Rightarrow> string \<Rightarrow> string \<Rightarrow> string option outcome"
  writeFileSync :: "nat \<Rightarrow> string \<Rightarrow> write_result"
  JSON_stringify :: "'n json \<Rightarrow> string"
  select_status :: db_status
  update_status :: "nat \<Rightarrow> db_status"
  now :: "nat \<Rightarrow> string"

section \<open>Main logic A: the storage bucket\<close>

record 'n bucket_state =
  sentFiles :: "'n json list"
  sent_cache_file :: file_state

text \<open>
  \<open>saveSentCache\<close> writes \<open>JSON.stringify([...set], null, 2)\<close> and swallows a failure of
  the write.
\<close>

definition saveSentCache :: "'n env \<Rightarrow> nat \<Rightarrow> 'n bucket_state \<Rightarrow> 'n bucket_state" where
  "saveSentCache env i s =
     (case writeFileSync env i (JSON_stringify env (JArray (sentFiles s))) of
        Written \<Rightarrow> s\<lparr>sent_cache_file := Content (JSON_stringify env (JArray (sentFiles s)))\<rparr>
      | WriteFailed f \<Rightarrow> s\<lparr>sent_cache_file := f\<rparr>)"

text \<open>A call of \<open>sock.sendMessage\<close> made for a file: the file, the target, the text.\<close>

datatype bucket_send = BucketSend (send_file: string) (send_to: string) (send_text: string)

definition has_pdf_suffix :: "string \<Rightarrow> bool" where
  "has_pdf_suffix n = endsWith (toLowerCase n) ''.pdf''"

text \<open>\<open>pub?.publicUrl\<close>, and \<open>None\<close> where the source's \<open>!publicUrl\<close> holds.\<close>

definition usable_url :: "pub option \<Rightarrow> string option" where
  "usable_url p =
     (case p of
        None \<Rightarrow> None
      | Some q \<Rightarrow>
          (case publicUrl q of
             None \<Rightarrow> None
           | Some u \<Rightarrow> if u = [] then None else Some u))"

text \<open>The text of the notification; it starts with U+1F4C4 and a space.\<close>

definition notification :: "string \<Rightarrow> string \<Rightarrow> string" where
  "notification n u =
     [CHR 0xF0, CHR 0x9F, CHR 0x93, CHR 0x84] @ '' New PDF uploaded:*'' @ n @ ''*\<newline>'' @ u"

text \<open>
  The \<open>for\<close> loop of \<open>pollBucketAndSend\<close> from entry \<open>i\<close> on. It returns the exception
  that left the loop, if any, the state, and the calls of \<open>sendMessage\<close> in order.
\<close>

fun bucket_loop ::
  "'n env \<Rightarrow> nat \<Rightarrow> file_object list \<Rightarrow> 'n bucket_state \<Rightarrow>
     string option \<times> 'n bucket_state \<times> bucket_send list" where
  "bucket_loop env i [] s = (None, s, [])"
| "bucket_loop env i (file # rest) s =
     (case name file of
        None \<Rightarrow> bucket_loop env (Suc i) rest s
      | Some n \<Rightarrow>
          if \<not> has_pdf_suffix n then bucket_loop env (Suc i) rest s
          else if Set_has (sentFiles s) (JString n) then bucket_loop env (Suc i) rest s
          else
            (case getPublicUrl env i n of
               Thrown e \<Rightarrow> (Some e, s, [])
             | Returned r \<Rightarrow>
                 if error r \<noteq> None then bucket_loop env (Suc i) rest s
                 else
                   (case usable_url (data r) of
                      None \<Rightarrow> bucket_loop env (Suc i) rest s
                    | Some u \<Rightarrow>
                        (case sendMessage env i (GROUP_JID env) (notification n u) of
                           Thrown e \<Rightarrow>
                             (Some e, s, [BucketSend n (GROUP_JID env) (notification n u)])
                         | Returned _ \<Rightarrow>
                             (case bucket_loop env (Suc i) rest
                                     (saveSentCache env i
                                        (s\<lparr>sentFiles := Set_add (sentFiles s) (JString n)\<rparr>)) of
                                (t, s', sends) \<Rightarrow>
                                  (t, s',
                                   BucketSend n (GROUP_JID env) (notification n u) # sends))))))"

text \<open>
  One cycle. The \<open>catch\<close> around the body only logs, so the cycle always returns: the
  state and the calls of \<open>sendMessage\<close> it made. A cycle is run from its first statement
  to its last; what another cycle or handler does while this one waits at an \<open>await\<close> is
  not part of the model.
\<close>

definition pollBucketAndSend ::
  "'n env \<Rightarrow> 'n bucket_state \<Rightarrow> 'n bucket_state \<times> bucket_send list" where
  "pollBucketAndSend env s =
     (case storage_list env of
        Thrown e \<Rightarrow> (s, [])
      | Returned r \<Rightarrow>
          if error r \<noteq> None then (s, [])
          else
            (case bucket_loop env 0 (case data r of None \<Rightarrow> [] | Some d \<Rightarrow> d) s of
               (t, s', sends) \<Rightarrow> (s', sends)))"

section \<open>Main logic B: the outbox table\<close>

text \<open>
  The query \<open>select('*').is('sent_at', null).limit(50)\<close> on the table. The rows come back
  in the order of the table.
\<close>

definition select_unsent :: "'n env \<Rightarrow> outbox_row list \<Rightarrow> outbox_row list response outcome" where
  "select_unsent env table =
     (case select_status env of
        Applied \<Rightarrow>
          Returned \<lparr>data = Some (take 50 (filter (\<lambda>r. sent_at r = None) table)), error = None\<rparr>
      | Refused e \<Rightarrow> Returned \<lparr>data = None, error = Some e\<rparr>
      | Failed e \<Rightarrow> Thrown e)"

text \<open>The request \<open>update({ sent_at, wa_msg_id }).eq('id', k)\<close>, when the database applies it.\<close>

definition update_sent ::
  "outbox_row list \<Rightarrow> nat \<Rightarrow> string \<Rightarrow> string option \<Rightarrow> outbox_row list" where
  "update_sent table k ts wa =
     map (\<lambda>r. if row_id r = k then r\<lparr>sent_at := Some ts, wa_msg_id := wa\<rparr> else r) table"

text \<open>\<open>row.to || GROUP_JID\<close>, \<open>row.message || ''\<close> and \<open>res?.key?.id || null\<close>.\<close>

definition target_of :: "'n env \<Rightarrow> outbox_row \<Rightarrow> string" where
  "target_of env row =
     (case row_to row of
        None \<Rightarrow> GROUP_JID env
      | Some j \<Rightarrow> if j = [] then GROUP_JID env else j)"

definition message_of :: "outbox_row \<Rightarrow> string" where
  "message_of row = (case row_message row of None \<Rightarrow> [] | Some m \<Rightarrow> m)"

definition receipt_id :: "string option \<Rightarrow> string option" where
  "receipt_id res = (case res of None \<Rightarrow> None | Some k \<Rightarrow> if k = [] then None else Some k)"

text \<open>A call of \<open>sock.sendMessage\<close> made for a row: the row's id, the target, the text.\<close>

datatype outbox_send = OutboxSend (sent_row: nat) (sent_to: string) (sent_text: string)

text \<open>
  The \<open>for\<close> loop of \<open>pollOutboxAndSend\<close> over the selected rows, from row \<open>i\<close> of the
  batch on. The answer of the update is not looked at; an update that throws leaves the
  loop as a send that throws does.
\<close>

fun outbox_loop ::
  "'n env \<Rightarrow> nat \<Rightarrow> outbox_row list \<Rightarrow> outbox_row list \<Rightarrow>
     string option \<times> outbox_row list \<times> outbox_send list" where
  "outbox_loop env i [] table = (None, table, [])"
| "outbox_loop env i (row # rest) table =
     (if message_of row = [] then outbox_loop env (Suc i) rest table
      else
        (case sendMessage env i (target_of env row) (message_of row) of
           Thrown e \<Rightarrow>
             (Some e, table, [OutboxSend (row_id row) (target_of env row) (message_of row)])
         | Returned res \<Rightarrow>
             (case update_status env i of
                Failed e \<Rightarrow>
                  (Some e, table,
                   [OutboxSend (row_id row) (target_of env row) (message_of row)])
              | Refused e \<Rightarrow>
                  (case outbox_loop env (Suc i) rest table of
                     (t, table', sends) \<Rightarrow>
                       (t, table',
                        OutboxSend (row_id row) (target_of env row) (message_of row) # sends))
              | Applied \<Rightarrow>
                  (case outbox_loop env (Suc i) rest
                          (update_sent table (row_id row) (now env i) (receipt_id res)) of
                     (t, table', sends) \<Rightarrow>
                       (t, table',
                        OutboxSend (row_id row) (target_of env row) (message_of row) # sends)))))"

text \<open>One cycle: the table afterwards and the calls of \<open>sendMessage\<close> it made.\<close>

definition pollOutboxAndSend ::
  "'n env \<Rightarrow> outbox_row list \<Rightarrow> outbox_row list \<times> outbox_send list" where
  "pollOutboxAndSend env table =
     (case select_unsent env table of
        Thrown e \<Rightarrow> (table, [])
      | Returned r \<Rightarrow>
          if error r \<noteq> None then (table, [])
          else
            (case outbox_loop env 0 (case data r of None \<Rightarrow> [] | Some d \<Rightarrow> d) table of
               (t, table', sends) \<Rightarrow> (table', sends)))"

text \<open>The rows a cycle works on, and the table after a run of cycles, one environment each.\<close>

definition selected :: "'n env \<Rightarrow> outbox_row list \<Rightarrow> outbox_row list" where
  "selected env table =
     (case select_unsent env table of
        Thrown e \<Rightarrow> []
      | Returned r \<Rightarrow>
          if error r \<noteq> None then [] else (case data r of None \<Rightarrow> [] | Some d \<Rightarrow> d))"

fun outbox_cycles :: "'n env list \<Rightarrow> outbox_row list \<Rightarrow> outbox_row list" where
  "outbox_cycles [] table = table"
| "outbox_cycles (env # envs) table = outbox_cycles envs (fst (pollOutboxAndSend env table))"

section \<open>WhatsApp connection\<close>

text \<open>
  The update a \<open>connection.update\<close> event carries. \<open>statusCode\<close> is
  \<open>lastDisconnect?.error?.output?.statusCode\<close> and \<open>status\<close> is
  \<open>lastDisconnect?.error?.status\<close>.
\<close>

datatype connection = Connecting | Open | Close

record connection_update =
  connection :: "connection option"
  qr :: "string option"
  statusCode :: "int option"
  status :: "int option"

text \<open>\<open>statusCode || status || 0\<close>: a number is falsy when it is 0.\<close>

definition close_code :: "connection_update \<Rightarrow> int" where
  "close_code u =
     (case statusCode u of
        Some c \<Rightarrow> if c \<noteq> 0 then c else (case status u of Some d \<Rightarrow> d | None \<Rightarrow> 0)
      | None \<Rightarrow> (case status u of Some d \<Rightarrow> d | None \<Rightarrow> 0))"

text \<open>
  What the process does, in order. \<open>Call p\<close> is the start of a cycle of poller \<open>p\<close>;
  \<open>Rejected\<close> is a promise of \<open>startWhatsApp\<close> or of a handler that rejects.
\<close>

datatype poller = Bucket | Outbox

datatype action =
    StartWhatsApp
  | MakeSocket
  | SetInterval poller
  | Call poller
  | OpenBrowser
  | LogConnected
  | WarnClosed int bool
  | Rejected string
  | Exit

text \<open>
  The process: the QR shown on the page, the \<open>openedBrowser\<close> flag of every socket made so
  far, and the actions so far.
\<close>

record bot =
  latestQRDataURL :: string
  openedBrowser :: "bool list"
  actions :: "action list"

text \<open>
  The libraries around the connection. \<open>loggedOut\<close> is Baileys' constant
  \<open>DisconnectReason.loggedOut\<close>. The steps of \<open>startWhatsApp\<close> that can fail are indexed
  by the number of earlier calls of \<open>startWhatsApp\<close>.
\<close>

record host =
  loggedOut :: int
  mkdirSync :: "nat \<Rightarrow> unit outcome"
  useMultiFileAuthState :: "nat \<Rightarrow> unit outcome"
  fetchLatestBaileysVersion :: "nat \<Rightarrow> unit outcome"
  toDataURL :: "string \<Rightarrow> string outcome"
  open_page :: "nat \<Rightarrow> unit outcome"

definition starts :: "bot \<Rightarrow> nat" where
  "starts b = length (filter (\<lambda>a. a = StartWhatsApp) (actions b))"

definition act :: "action list \<Rightarrow> bot \<Rightarrow> bot" where
  "act as b = b\<lparr>actions := actions b @ as\<rparr>"

text \<open>
  \<open>startWhatsApp\<close>: the auth directory, the credentials and the version, then the socket
  with its handlers, the two timers and one call of each poller. The result says whether
  the promise rejects. \<open>mkdirSync\<close> stands for the test \<open>existsSync\<close> and the call it
  guards. A call of \<open>startWhatsApp\<close> is one step of the model, and a call of a poller is
  the action \<open>Call\<close>; the cycle itself is \<open>pollBucketAndSend\<close> or
  \<open>pollOutboxAndSend\<close> above.
\<close>

definition startWhatsApp :: "host \<Rightarrow> bot \<Rightarrow> string option \<times> bot" where
  "startWhatsApp h b =
     (case mkdirSync h (starts b) of
        Thrown e \<Rightarrow> (Some e, act [StartWhatsApp, Rejected e] b)
      | Returned _ \<Rightarrow>
          (case useMultiFileAuthState h (starts b) of
             Thrown e \<Rightarrow> (Some e, act [StartWhatsApp, Rejected e] b)
           | Returned _ \<Rightarrow>
               (case fetchLatestBaileysVersion h (starts b) of
                  Thrown e \<Rightarrow> (Some e, act [StartWhatsApp, Rejected e] b)
                | Returned _ \<Rightarrow>
                    (None,
                     act [StartWhatsApp, MakeSocket, SetInterval Bucket, SetInterval Outbox,
                          Call Bucket, Call Outbox]
                       (b\<lparr>openedBrowser := openedBrowser b @ [False]\<rparr>)))))"

text \<open>The three parts of the \<open>connection.update\<close> handler of socket \<open>k\<close>.\<close>

definition handle_qr :: "host \<Rightarrow> nat \<Rightarrow> connection_update \<Rightarrow> bot \<Rightarrow> string option \<times> bot" where
  "handle_qr h k u b =
     (case qr u of
        None \<Rightarrow> (None, b)
      | Some q \<Rightarrow>
          if q = [] then (None, b)
          else
            (case toDataURL h q of
               Thrown e \<Rightarrow> (Some e, act [Rejected e] b)
             | Returned url \<Rightarrow>
                 if openedBrowser b ! k then (None, b\<lparr>latestQRDataURL := url\<rparr>)
                 else
                   (case open_page h k of
                      Thrown e \<Rightarrow>
                        (Some e,
                         act [OpenBrowser, Rejected e]
                           (b\<lparr>latestQRDataURL := url,
                              openedBrowser := (openedBrowser b)[k := True]\<rparr>))
                    | Returned _ \<Rightarrow>
                        (None,
                         act [OpenBrowser]
                           (b\<lparr>latestQRDataURL := url,
                              openedBrowser := (openedBrowser b)[k := True]\<rparr>)))))"

definition handle_open :: "connection_update \<Rightarrow> bot \<Rightarrow> bot" where
  "handle_open u b =
     (if connection u = Some Open then act [LogConnected] (b\<lparr>latestQRDataURL := []\<rparr>) else b)"

definition handle_close :: "host \<Rightarrow> connection_update \<Rightarrow> bot \<Rightarrow> bot" where
  "handle_close h u b =
     (if connection u = Some Close then
        (if close_code u \<noteq> loggedOut h
         then snd (startWhatsApp h (act [WarnClosed (close_code u) True] b))
         else act [WarnClosed (close_code u) False] b)
      else b)"

definition on_connection_update :: "host \<Rightarrow> nat \<Rightarrow> connection_update \<Rightarrow> bot \<Rightarrow> bot" where
  "on_connection_update h k u b =
     (case handle_qr h k u b of
        (Some e, b') \<Rightarrow> b'
      | (None, b') \<Rightarrow> handle_close h u (handle_open u b'))"

text \<open>
  The module's last statements call \<open>startWhatsApp\<close> once and leave the process when
  that call rejects. After that the event loop delivers updates of the sockets made so far
  and the ticks of the timers set so far, as long as the process lives. The process ends
  with \<open>process.exit\<close>, and with a rejection that nothing catches: the handler of
  \<open>connection.update\<close> is an async function whose promise nobody awaits, and it calls
  \<open>startWhatsApp()\<close> without a \<open>catch\<close>.
\<close>

definition boot :: "host \<Rightarrow> bot" where
  "boot h =
     (case startWhatsApp h \<lparr>latestQRDataURL = [], openedBrowser = [], actions = []\<rparr> of
        (Some e, b) \<Rightarrow> act [Exit] b
      | (None, b) \<Rightarrow> b)"

datatype event = ConnectionUpdate nat connection_update | Tick poller

fun ends_process :: "action \<Rightarrow> bool" where
  "ends_process Exit = True"
| "ends_process (Rejected e) = True"
| "ends_process _ = False"

fun dispatch :: "host \<Rightarrow> bot \<Rightarrow> event \<Rightarrow> bot" where
  "dispatch h b (ConnectionUpdate k u) =
     (if list_ex ends_process (actions b) \<or> length (openedBrowser b) \<le> k then b
      else on_connection_update h k u b)"
| "dispatch h b (Tick p) =
     (if list_ex ends_process (actions b) \<or> SetInterval p \<notin> set (actions b) then b
      else act [Call p] b)"

definition run :: "host \<Rightarrow> event list \<Rightarrow> bot" where
  "run h evs = foldl (dispatch h) (boot h) evs"

text \<open>Whether an action is done before any \<open>open\<close> update has been handled.\<close>

definition before_open :: "action \<Rightarrow> action list \<Rightarrow> bool" where
  "before_open a as = (a \<in> set (takeWhile (\<lambda>c. c \<noteq> LogConnected) as))"

section \<open>Example inputs\<close>

definition ok_env :: "unit env" where
  "ok_env =
     \<lparr>GROUP_JID = ''g@g.us'',
      storage_list = Returned \<lparr>data = Some [\<lparr>name = Some ''a.pdf''\<rparr>, \<lparr>name = Some ''b.pdf''\<rparr>,
         \<lparr>name = Some ''notes.txt''\<rparr>], error = None\<rparr>,
      getPublicUrl = (\<lambda>i n. Returned \<lparr>data = Some \<lparr>publicUrl = Some (''https://x/'' @ n)\<rparr>, error = None\<rparr>),
      sendMessage = (\<lambda>i j t. Returned (Some ''m1'')),
      writeFileSync = (\<lambda>i t. Written),
      JSON_stringify = (\<lambda>v. ''[]''),
      select_status = Applied,
      update_status = (\<lambda>i. Applied),
      now = (\<lambda>i. ''2024-01-01T00:00:00.000Z'')\<rparr>"

definition empty_state :: "unit bucket_state" where
  "empty_state = \<lparr>sentFiles = [], sent_cache_file = Missing\<rparr>"

definition fail_second_env :: "unit env" where
  "fail_second_env =
     ok_env\<lparr>sendMessage := (\<lambda>i j t. if i = 1 then Thrown ''Connection Closed'' else Returned (Some ''m1''))\<rparr>"

definition upper_env :: "unit env" where
  "upper_env =
     ok_env\<lparr>storage_list := Returned \<lparr>data = Some [\<lparr>name = Some ''notes.txt''\<rparr>,
         \<lparr>name = Some ''REPORT.PDF''\<rparr>], error = None\<rparr>\<rparr>"

definition blank_row :: "nat \<Rightarrow> outbox_row" where
  "blank_row k =
     \<lparr>row_id = k, row_to = None, row_message = None, sent_at = None, wa_msg_id = None\<rparr>"

definition text_row :: "nat \<Rightarrow> string \<Rightarrow> outbox_row" where
  "text_row k m =
     \<lparr>row_id = k, row_to = None, row_message = Some m, sent_at = None, wa_msg_id = None\<rparr>"

definition fail_first_env :: "unit env" where
  "fail_first_env =
     ok_env\<lparr>sendMessage := (\<lambda>i j t. if i = 0 then Thrown ''Connection Closed'' else Returned (Some ''m1''))\<rparr>"

definition two_rows :: "outbox_row list" where
  "two_rows = [text_row 1 ''first'', text_row 2 ''second'']"

definition queued_behind_blanks :: "outbox_row list" where
  "queued_behind_blanks = map blank_row [0..<50] @ [text_row 50 ''hi'']"

definition fifty_one_blanks :: "outbox_row list" where
  "fifty_one_blanks = map blank_row [0..<51]"

definition mixed_rows :: "outbox_row list" where
  "mixed_rows = [blank_row 1, text_row 2 ''second'']"

definition example_parse :: "string \<Rightarrow> unit json outcome" where
  "example_parse t =
     (if t = ''[]'' then Returned (JArray [])
      else if t = ''[\"a.pdf\"]'' then Returned (JArray [JString ''a.pdf''])
      else if t = ''{}'' then Returned (JObject [])
      else Thrown ''SyntaxError'')"

definition good_host :: host where
  "good_host =
     \<lparr>loggedOut = 401,
      mkdirSync = (\<lambda>n. Returned ()),
      useMultiFileAuthState = (\<lambda>n. Returned ()),
      fetchLatestBaileysVersion = (\<lambda>n. Returned ()),
      toDataURL = (\<lambda>q. Returned (''data:image/png;base64,'' @ q)),
      open_page = (\<lambda>k. Returned ())\<rparr>"

definition first_bot :: bot where
  "first_bot = \<lparr>latestQRDataURL = [], openedBrowser = [False], actions =
     [StartWhatsApp, MakeSocket, SetInterval Bucket, SetInterval Outbox, Call Bucket, Call Outbox]\<rparr>"

definition pairing_bot :: bot where
  "pairing_bot = first_bot\<lparr>latestQRDataURL := ''data:image/png;base64,2@abc''\<rparr>"

definition logout_update :: connection_update where
  "logout_update = \<lparr>connection = Some Close, qr = None, statusCode = Some 401, status = None\<rparr>"

definition drop_update :: connection_update where
  "drop_update = \<lparr>connection = Some Close, qr = None, statusCode = Some 428, status = None\<rparr>"

definition open_update :: connection_update where
  "open_update = \<lparr>connection = Some Open, qr = None, statusCode = None, status = None\<rparr>"

section \<open>Properties of the bucket cycle\<close>


lemma sentFiles_saveSentCache: "sentFiles (saveSentCache env i s) = sentFiles s"
  by (simp add: saveSentCache_def split: write_result.splits)

lemma Set_has_Set_add: "Set_has s v \<Longrightarrow> Set_has (Set_add s w) v"
  by (auto simp: Set_has_def Set_add_def)

lemma bucket_loop_Cons_cases:
  obtains
    (skip) "bucket_loop env i (f0 # rest) s = bucket_loop env (Suc i) rest s"
  | (url_thrown) e where "bucket_loop env i (f0 # rest) s = (Some e, s, [])"
  | (send_thrown) n u e where "name f0 = Some n" "has_pdf_suffix n"
      "\<not> Set_has (sentFiles s) (JString n)"
      "sendMessage env i (GROUP_JID env) (notification n u) = Thrown e"
      "bucket_loop env i (f0 # rest) s =
         (Some e, s, [BucketSend n (GROUP_JID env) (notification n u)])"
  | (sent) n u t s' sends where "name f0 = Some n" "has_pdf_suffix n"
      "\<not> Set_has (sentFiles s) (JString n)"
      "bucket_loop env (Suc i) rest
         (saveSentCache env i (s\<lparr>sentFiles := Set_add (sentFiles s) (JString n)\<rparr>)) =
         (t, s', sends)"
      "bucket_loop env i (f0 # rest) s =
         (t, s', BucketSend n (GROUP_JID env) (notification n u) # sends)"
proof (cases "name f0")
  case None
  then show ?thesis using skip by simp
next
  case (Some n)
  note n = this
  show ?thesis
  proof (cases "has_pdf_suffix n \<and> \<not> Set_has (sentFiles s) (JString n)")
    case False
    then show ?thesis using skip n by auto
  next
    case True
    note cand = this
    show ?thesis
    proof (cases "getPublicUrl env i n")
      case (Thrown e)
      then show ?thesis using url_thrown n cand by simp
    next
      case (Returned r)
      note r = this
      show ?thesis
      proof (cases "error r = None")
        case False
        then show ?thesis using skip n cand r by simp
      next
        case True
        note noerr = this
        show ?thesis
        proof (cases "usable_url (data r)")
          case None
          then show ?thesis using skip n cand r noerr by simp
        next
          case (Some u)
          note u = this
          show ?thesis
          proof (cases "sendMessage env i (GROUP_JID env) (notification n u)")
            case (Thrown e)
            then show ?thesis using send_thrown [of n u e] n cand r noerr u by simp
          next
            case (Returned rc)
            obtain t s' sends where rec: "bucket_loop env (Suc i) rest
              (saveSentCache env i (s\<lparr>sentFiles := Set_add (sentFiles s) (JString n)\<rparr>)) =
              (t, s', sends)"
              by (cases "bucket_loop env (Suc i) rest
              (saveSentCache env i (s\<lparr>sentFiles := Set_add (sentFiles s) (JString n)\<rparr>))") auto
            show ?thesis using sent [of n t s' sends u] rec Returned n cand r noerr u by simp
          qed
        qed
      qed
    qed
  qed
qed

lemma bucket_loop_no_resend:
  "Set_has (sentFiles s) (JString n) \<Longrightarrow> bucket_loop env i files s = (t, s', sends) \<Longrightarrow>
     (\<forall>c\<in>set sends. send_file c \<noteq> n) \<and> Set_has (sentFiles s') (JString n)"
proof (induction files arbitrary: i s t s' sends)
  case Nil
  then show ?case by simp
next
  case (Cons f0 rest)
  show ?case
  proof (cases rule: bucket_loop_Cons_cases [of env i f0 rest s])
    case skip
    then show ?thesis using Cons.IH [of s "Suc i" t s' sends] Cons.prems by simp
  next
    case (url_thrown e)
    then show ?thesis using Cons.prems by auto
  next
    case (send_thrown m u e)
    then show ?thesis using Cons.prems by auto
  next
    case (sent m u t0 s0 sends0)
    have "Set_has (sentFiles (saveSentCache env i (s\<lparr>sentFiles := Set_add (sentFiles s) (JString m)\<rparr>))) (JString n)"
      using Cons.prems(1) by (simp add: sentFiles_saveSentCache Set_has_Set_add)
    from Cons.IH [OF this sent(4)] sent Cons.prems show ?thesis by auto
  qed
qed

lemma pollBucket_no_resend:
  assumes "Set_has (sentFiles s) (JString n)"
  shows "(\<forall>c\<in>set (snd (pollBucketAndSend env s)). send_file c \<noteq> n)
     \<and> Set_has (sentFiles (fst (pollBucketAndSend env s))) (JString n)"
  using assms bucket_loop_no_resend [OF assms]
  by (auto simp: pollBucketAndSend_def split: outcome.splits prod.splits)

lemma toLowerChar_p: "toLowerChar c = CHR ''p'' \<longleftrightarrow> c = CHR ''p'' \<or> c = CHR ''P''"
  by (auto simp: toLowerChar_def split: if_splits)
lemma toLowerChar_d: "toLowerChar c = CHR ''d'' \<longleftrightarrow> c = CHR ''d'' \<or> c = CHR ''D''"
  by (auto simp: toLowerChar_def split: if_splits)
lemma toLowerChar_f: "toLowerChar c = CHR ''f'' \<longleftrightarrow> c = CHR ''f'' \<or> c = CHR ''F''"
  by (auto simp: toLowerChar_def split: if_splits)
lemma toLowerChar_dot: "toLowerChar c = CHR ''.'' \<longleftrightarrow> c = CHR ''.''"
  by (auto simp: toLowerChar_def split: if_splits)

lemma endsWith_iff: "endsWith s suf \<longleftrightarrow> (\<exists>stem. s = stem @ suf)"
  unfolding endsWith_def
proof
  assume a: "length suf \<le> length s \<and> drop (length s - length suf) s = suf"
  have "s = take (length s - length suf) s @ drop (length s - length suf) s" by simp
  with a show "\<exists>stem. s = stem @ suf" by metis
next
  assume "\<exists>stem. s = stem @ suf"
  then show "length suf \<le> length s \<and> drop (length s - length suf) s = suf" by auto
qed

lemma has_pdf_suffix_iff:
  "has_pdf_suffix n \<longleftrightarrow>
     (\<exists>stem p d f. n = stem @ [CHR ''.'', p, d, f]
        \<and> (p = CHR ''p'' \<or> p = CHR ''P'') \<and> (d = CHR ''d'' \<or> d = CHR ''D'')
        \<and> (f = CHR ''f'' \<or> f = CHR ''F''))"
proof
  assume "has_pdf_suffix n"
  then obtain stem where st: "map toLowerChar n = stem @ ''.pdf''"
    by (auto simp: has_pdf_suffix_def endsWith_iff toLowerCase_def)
  then obtain a b where n: "n = a @ b" and b: "map toLowerChar b = ''.pdf''"
    by (auto simp: map_eq_append_conv)
  from b obtain c0 p d f where "b = [c0, p, d, f]" 
    and "toLowerChar c0 = CHR ''.''" "toLowerChar p = CHR ''p''"
      "toLowerChar d = CHR ''d''" "toLowerChar f = CHR ''f''"
    by (auto simp: map_eq_Cons_conv)
  with n show "\<exists>stem p d f. n = stem @ [CHR ''.'', p, d, f]
        \<and> (p = CHR ''p'' \<or> p = CHR ''P'') \<and> (d = CHR ''d'' \<or> d = CHR ''D'')
        \<and> (f = CHR ''f'' \<or> f = CHR ''F'')"
    by (auto simp: toLowerChar_p toLowerChar_d toLowerChar_f toLowerChar_dot)
next
  assume "\<exists>stem p d f. n = stem @ [CHR ''.'', p, d, f]
        \<and> (p = CHR ''p'' \<or> p = CHR ''P'') \<and> (d = CHR ''d'' \<or> d = CHR ''D'')
        \<and> (f = CHR ''f'' \<or> f = CHR ''F'')"
  then obtain stem p d f where n: "n = stem @ [CHR ''.'', p, d, f]"
    and l: "toLowerChar p = CHR ''p''" "toLowerChar d = CHR ''d''" "toLowerChar f = CHR ''f''"
    by (auto simp: toLowerChar_p toLowerChar_d toLowerChar_f)
  have "toLowerChar CHR ''.'' = CHR ''.''" by (simp add: toLowerChar_dot)
  with n l show "has_pdf_suffix n"
    by (auto simp: has_pdf_suffix_def endsWith_iff toLowerCase_def)
qed


lemma has_pdf_a: "has_pdf_suffix ''a.pdf''"
  by (simp add: has_pdf_suffix_def endsWith_def toLowerCase_def toLowerChar_def)
lemma has_pdf_b: "has_pdf_suffix ''b.pdf''"
  by (simp add: has_pdf_suffix_def endsWith_def toLowerCase_def toLowerChar_def)
lemma has_pdf_notes: "\<not> has_pdf_suffix ''notes.txt''"
  by (simp add: has_pdf_suffix_def endsWith_def toLowerCase_def toLowerChar_def)



text \<open>
  Claim C1. A cycle makes no call of \<open>sendMessage\<close> for a file name that the ledger
  holds when the cycle begins, whatever the listing and the collaborators do. So, with the
  same listing presented to two consecutive cycles, a name that is in the ledger after the
  first cycle is not sent in the second.
\<close>

theorem ledger_entry_never_sent_again:
  "(Set_has (sentFiles s) (JString n) \<longrightarrow>
      (\<forall>c\<in>set (snd (pollBucketAndSend env s)). send_file c \<noteq> n))
   \<and> (Set_has (sentFiles (fst (pollBucketAndSend env s))) (JString n)
        \<and> storage_list env' = storage_list env \<longrightarrow>
      (\<forall>c\<in>set (snd (pollBucketAndSend env' (fst (pollBucketAndSend env s)))). send_file c \<noteq> n))"
  using pollBucket_no_resend by blast

lemma bucket_loop_append:
  "bucket_loop env i (xs @ ys) s =
     (case bucket_loop env i xs s of
        (None, s1, sends1) \<Rightarrow>
          (case bucket_loop env (i + length xs) ys s1 of
             (t, s2, sends2) \<Rightarrow> (t, s2, sends1 @ sends2))
      | (Some e, s1, sends1) \<Rightarrow> (Some e, s1, sends1))"
proof (induction xs arbitrary: i s)
  case Nil
  then show ?case by (simp split: prod.splits)
next
  case (Cons f0 rest)
  show ?case
    unfolding append_Cons bucket_loop.simps Cons.IH
    by (simp split: option.splits outcome.splits prod.splits)
qed


lemma has_pdf_REPORT: "has_pdf_suffix ''REPORT.PDF''"
  by (simp add: has_pdf_suffix_def endsWith_def toLowerCase_def toLowerChar_def)

theorem ledger_entry_never_sent_again_witness:
  "Set_has (sentFiles (fst (pollBucketAndSend ok_env empty_state))) (JString ''a.pdf'')
   \<and> storage_list ok_env = storage_list ok_env
   \<and> ''a.pdf'' \<notin> send_file `
         set (snd (pollBucketAndSend ok_env (fst (pollBucketAndSend ok_env empty_state))))"
proof -
  have h: "Set_has (sentFiles (fst (pollBucketAndSend ok_env empty_state))) (JString ''a.pdf'')"
    by (simp add: pollBucketAndSend_def ok_env_def empty_state_def has_pdf_a has_pdf_b
        has_pdf_notes Set_has_def Set_add_def usable_url_def saveSentCache_def)
  show ?thesis
    using h ledger_entry_never_sent_again [of empty_state "''a.pdf''" ok_env ok_env]
    by auto
qed

text \<open>
  Claim C6. With the listing \<open>a.pdf\<close>, \<open>b.pdf\<close>, \<open>notes.txt\<close>, an empty ledger, and
  URL resolution and sends that succeed, one cycle sends exactly twice, for \<open>a.pdf\<close> and
  then \<open>b.pdf\<close>, both to the group; the ledger afterwards holds these two names, and
  \<open>notes.txt\<close> is neither sent nor recorded.
\<close>

theorem scenario_two_pdfs:
  assumes listing: "storage_list env = Returned \<lparr>data = Some [\<lparr>name = Some ''a.pdf''\<rparr>,
      \<lparr>name = Some ''b.pdf''\<rparr>, \<lparr>name = Some ''notes.txt''\<rparr>], error = None\<rparr>"
    and ledger: "sentFiles s = []"
    and urls: "\<forall>i n. \<exists>u. u \<noteq> [] \<and>
      getPublicUrl env i n = Returned \<lparr>data = Some \<lparr>publicUrl = Some u\<rparr>, error = None\<rparr>"
    and sends: "\<forall>i j t. \<exists>res. sendMessage env i j t = Returned res"
  shows "map send_file (snd (pollBucketAndSend env s)) = [''a.pdf'', ''b.pdf'']
    \<and> (\<forall>c\<in>set (snd (pollBucketAndSend env s)). send_to c = GROUP_JID env)
    \<and> sentFiles (fst (pollBucketAndSend env s)) = [JString ''a.pdf'', JString ''b.pdf'']
    \<and> JString ''notes.txt'' \<notin> set (sentFiles (fst (pollBucketAndSend env s)))"
proof -
  obtain ua where ua: "ua \<noteq> []"
    "getPublicUrl env 0 ''a.pdf'' = Returned \<lparr>data = Some \<lparr>publicUrl = Some ua\<rparr>, error = None\<rparr>"
    using urls by blast
  obtain ub where ub: "ub \<noteq> []"
    "getPublicUrl env (Suc 0) ''b.pdf'' = Returned \<lparr>data = Some \<lparr>publicUrl = Some ub\<rparr>, error = None\<rparr>"
    using urls by blast
  obtain ra where ra: "sendMessage env 0 (GROUP_JID env) (notification ''a.pdf'' ua) = Returned ra"
    using sends by blast
  obtain rb where rb: "sendMessage env (Suc 0) (GROUP_JID env) (notification ''b.pdf'' ub) = Returned rb"
    using sends by blast
  have "pollBucketAndSend env s =
      (saveSentCache env (Suc 0) ((saveSentCache env 0 (s\<lparr>sentFiles := [JString ''a.pdf'']\<rparr>))
          \<lparr>sentFiles := [JString ''a.pdf'', JString ''b.pdf'']\<rparr>),
       [BucketSend ''a.pdf'' (GROUP_JID env) (notification ''a.pdf'' ua),
        BucketSend ''b.pdf'' (GROUP_JID env) (notification ''b.pdf'' ub)])"
    using ua ub ra rb
    by (simp add: pollBucketAndSend_def listing ledger has_pdf_a has_pdf_b has_pdf_notes
        Set_has_def Set_add_def usable_url_def sentFiles_saveSentCache)
  then show ?thesis by (simp add: sentFiles_saveSentCache)
qed

theorem scenario_two_pdfs_witness:
  "map send_file (snd (pollBucketAndSend ok_env empty_state)) = [''a.pdf'', ''b.pdf'']
    \<and> map send_to (snd (pollBucketAndSend ok_env empty_state)) = [''g@g.us'', ''g@g.us'']
    \<and> sentFiles (fst (pollBucketAndSend ok_env empty_state)) = [JString ''a.pdf'', JString ''b.pdf'']
    \<and> JString ''notes.txt'' \<notin> set (sentFiles (fst (pollBucketAndSend ok_env empty_state)))"
proof -
  have 1: "storage_list ok_env = Returned \<lparr>data = Some [\<lparr>name = Some ''a.pdf''\<rparr>,
      \<lparr>name = Some ''b.pdf''\<rparr>, \<lparr>name = Some ''notes.txt''\<rparr>], error = None\<rparr>"
    by (simp add: ok_env_def)
  have 2: "sentFiles empty_state = []" by (simp add: empty_state_def)
  have 3: "\<forall>i n. \<exists>u. u \<noteq> [] \<and>
      getPublicUrl ok_env i n = Returned \<lparr>data = Some \<lparr>publicUrl = Some u\<rparr>, error = None\<rparr>"
    by (simp add: ok_env_def)
  have 4: "\<forall>i j t. \<exists>res. sendMessage ok_env i j t = Returned res"
    by (simp add: ok_env_def)
  have 5: "GROUP_JID ok_env = ''g@g.us''" by (simp add: ok_env_def)
  have 6: "length (snd (pollBucketAndSend ok_env empty_state)) = 2"
    using scenario_two_pdfs [OF 1 2 3 4] by (metis length_map length_Cons list.size(3) numeral_2_eq_2)
  show ?thesis using scenario_two_pdfs [OF 1 2 3 4] 5 6
    by (auto simp: length_Suc_conv numeral_2_eq_2)
qed

text \<open>
  Claim C9. When the send for an entry of the listing throws, the cycle ends there: the
  ledger is the one the entries before it left, the failed name is not in it, and the
  failed call is the last call of \<open>sendMessage\<close> of the cycle, whatever entries follow in
  the listing.
\<close>

theorem send_failure_ends_bucket_cycle:
  assumes "storage_list env = Returned r0" and "error r0 = None"
    and "data r0 = Some (before @ f0 # rest)"
    and "bucket_loop env 0 before s = (None, s1, sends1)"
    and "name f0 = Some n" and "has_pdf_suffix n"
    and "\<not> Set_has (sentFiles s1) (JString n)"
    and "getPublicUrl env (length before) n = Returned r" and "error r = None"
    and "usable_url (data r) = Some u"
    and "sendMessage env (length before) (GROUP_JID env) (notification n u) = Thrown e"
  shows "pollBucketAndSend env s =
      (s1, sends1 @ [BucketSend n (GROUP_JID env) (notification n u)])
    \<and> \<not> Set_has (sentFiles (fst (pollBucketAndSend env s))) (JString n)"
proof -
  have "bucket_loop env (length before) (f0 # rest) s1 =
      (Some e, s1, [BucketSend n (GROUP_JID env) (notification n u)])"
    using assms(5-11) by simp
  then have "bucket_loop env 0 (before @ f0 # rest) s =
      (Some e, s1, sends1 @ [BucketSend n (GROUP_JID env) (notification n u)])"
    using assms(4) by (simp add: bucket_loop_append)
  then have "pollBucketAndSend env s =
      (s1, sends1 @ [BucketSend n (GROUP_JID env) (notification n u)])"
    using assms(1-3) by (simp add: pollBucketAndSend_def)
  then show ?thesis using assms(7) by simp
qed

text \<open>
  Claim C8. The suffix test holds exactly for the names that end in a dot followed by the
  letters p, d, f, each in either case. An entry whose name fails the test is skipped; an
  entry whose name passes it, is not in the ledger and has a usable URL is sent.
\<close>

theorem pdf_suffix_case_insensitive:
  "(has_pdf_suffix n \<longleftrightarrow>
      (\<exists>stem p d f. n = stem @ [CHR ''.'', p, d, f]
        \<and> (p = CHR ''p'' \<or> p = CHR ''P'') \<and> (d = CHR ''d'' \<or> d = CHR ''D'')
        \<and> (f = CHR ''f'' \<or> f = CHR ''F'')))
   \<and> (name f0 = Some n \<and> \<not> has_pdf_suffix n \<longrightarrow>
        bucket_loop env i (f0 # rest) s = bucket_loop env (Suc i) rest s)
   \<and> (name f0 = Some n \<and> has_pdf_suffix n \<and> \<not> Set_has (sentFiles s) (JString n)
        \<and> getPublicUrl env i n = Returned r \<and> error r = None \<and> usable_url (data r) = Some u \<longrightarrow>
        (\<exists>t s' sends. bucket_loop env i (f0 # rest) s =
           (t, s', BucketSend n (GROUP_JID env) (notification n u) # sends)))"
proof (intro conjI impI)
  show "has_pdf_suffix n \<longleftrightarrow>
      (\<exists>stem p d f. n = stem @ [CHR ''.'', p, d, f]
        \<and> (p = CHR ''p'' \<or> p = CHR ''P'') \<and> (d = CHR ''d'' \<or> d = CHR ''D'')
        \<and> (f = CHR ''f'' \<or> f = CHR ''F''))"
    by (rule has_pdf_suffix_iff)
next
  assume "name f0 = Some n \<and> \<not> has_pdf_suffix n"
  then show "bucket_loop env i (f0 # rest) s = bucket_loop env (Suc i) rest s" by simp
next
  assume a: "name f0 = Some n \<and> has_pdf_suffix n \<and> \<not> Set_has (sentFiles s) (JString n)
        \<and> getPublicUrl env i n = Returned r \<and> error r = None \<and> usable_url (data r) = Some u"
  show "\<exists>t s' sends. bucket_loop env i (f0 # rest) s =
           (t, s', BucketSend n (GROUP_JID env) (notification n u) # sends)"
  proof (cases "sendMessage env i (GROUP_JID env) (notification n u)")
    case (Thrown e)
    then show ?thesis using a by simp
  next
    case (Returned res)
    then show ?thesis using a by (simp split: prod.splits)
  qed
qed


theorem send_failure_ends_bucket_cycle_witness:
  "pollBucketAndSend fail_second_env empty_state =
     (\<lparr>sentFiles = [JString ''a.pdf''], sent_cache_file = Content ''[]''\<rparr>,
      [BucketSend ''a.pdf'' ''g@g.us'' (notification ''a.pdf'' ''https://x/a.pdf''),
       BucketSend ''b.pdf'' ''g@g.us'' (notification ''b.pdf'' ''https://x/b.pdf'')])
   \<and> \<not> Set_has (sentFiles (fst (pollBucketAndSend fail_second_env empty_state))) (JString ''b.pdf'')"
proof -
  let ?lst = "\<lparr>data = Some ([\<lparr>name = Some ''a.pdf''\<rparr>] @ \<lparr>name = Some ''b.pdf''\<rparr> #
      [\<lparr>name = Some ''notes.txt''\<rparr>]), error = None\<rparr>"
  let ?r = "\<lparr>data = Some \<lparr>publicUrl = Some ''https://x/b.pdf''\<rparr>, error = None\<rparr>"
  let ?s1 = "\<lparr>sentFiles = [JString ''a.pdf''], sent_cache_file = Content ''[]''\<rparr> :: unit bucket_state"
  have 1: "storage_list fail_second_env = Returned ?lst"
    by (simp add: fail_second_env_def ok_env_def)
  have 2: "error ?lst = None" by simp
  have 3: "data ?lst = Some ([\<lparr>name = Some ''a.pdf''\<rparr>] @ \<lparr>name = Some ''b.pdf''\<rparr> #
      [\<lparr>name = Some ''notes.txt''\<rparr>])" by simp
  have 4: "bucket_loop fail_second_env 0 [\<lparr>name = Some ''a.pdf''\<rparr>] empty_state =
      (None, ?s1, [BucketSend ''a.pdf'' ''g@g.us'' (notification ''a.pdf'' ''https://x/a.pdf'')])"
    by (simp add: fail_second_env_def ok_env_def empty_state_def has_pdf_a Set_has_def
        Set_add_def usable_url_def saveSentCache_def)
  have 5: "name \<lparr>name = Some ''b.pdf''\<rparr> = Some ''b.pdf''" by simp
  have 7: "\<not> Set_has (sentFiles ?s1) (JString ''b.pdf'')" by (simp add: Set_has_def)
  have 8: "getPublicUrl fail_second_env (length [\<lparr>name = Some ''a.pdf''\<rparr>]) ''b.pdf'' = Returned ?r"
    by (simp add: fail_second_env_def ok_env_def)
  have 9: "error ?r = None" by simp
  have 10: "usable_url (data ?r) = Some ''https://x/b.pdf''" by (simp add: usable_url_def)
  have 11: "sendMessage fail_second_env (length [\<lparr>name = Some ''a.pdf''\<rparr>])
      (GROUP_JID fail_second_env) (notification ''b.pdf'' ''https://x/b.pdf'') =
      Thrown ''Connection Closed''"
    by (simp add: fail_second_env_def ok_env_def)
  have 12: "GROUP_JID fail_second_env = ''g@g.us''"
    by (simp add: fail_second_env_def ok_env_def)
  show ?thesis
    using send_failure_ends_bucket_cycle [OF 1 2 3 4 5 has_pdf_b 7 8 9 10 11] 12
    by (simp add: Set_has_def)
qed

theorem pdf_suffix_case_insensitive_witness:
  "has_pdf_suffix ''REPORT.PDF'' \<and> \<not> has_pdf_suffix ''notes.txt''
   \<and> bucket_loop upper_env 0 [\<lparr>name = Some ''notes.txt''\<rparr>, \<lparr>name = Some ''REPORT.PDF''\<rparr>] empty_state =
       bucket_loop upper_env (Suc 0) [\<lparr>name = Some ''REPORT.PDF''\<rparr>] empty_state
   \<and> (\<exists>t s' sends. bucket_loop upper_env (Suc 0) [\<lparr>name = Some ''REPORT.PDF''\<rparr>] empty_state =
         (t, s', BucketSend ''REPORT.PDF'' ''g@g.us''
            (notification ''REPORT.PDF'' ''https://x/REPORT.PDF'') # sends))"
proof -
  let ?r = "\<lparr>data = Some \<lparr>publicUrl = Some ''https://x/REPORT.PDF''\<rparr>, error = None\<rparr>"
  have 1: "\<not> Set_has (sentFiles empty_state) (JString ''REPORT.PDF'')"
    by (simp add: Set_has_def empty_state_def)
  have 2: "getPublicUrl upper_env (Suc 0) ''REPORT.PDF'' = Returned ?r"
    by (simp add: upper_env_def ok_env_def)
  have 3: "usable_url (data ?r) = Some ''https://x/REPORT.PDF''" by (simp add: usable_url_def)
  have 4: "GROUP_JID upper_env = ''g@g.us''" by (simp add: upper_env_def ok_env_def)
  show ?thesis
    using pdf_suffix_case_insensitive [of "''notes.txt''" "\<lparr>name = Some ''notes.txt''\<rparr>"
        upper_env 0 "[\<lparr>name = Some ''REPORT.PDF''\<rparr>]" empty_state]
      pdf_suffix_case_insensitive [of "''REPORT.PDF''" "\<lparr>name = Some ''REPORT.PDF''\<rparr>"
        upper_env "Suc 0" "[]" empty_state ?r "''https://x/REPORT.PDF''"]
      has_pdf_REPORT has_pdf_notes 1 2 3 4
    by simp
qed

section \<open>Properties of the outbox cycle\<close>

lemma outbox_loop_Cons_cases:
  obtains
    (blank) "message_of row = []"
      "outbox_loop env i (row # rest) table = outbox_loop env (Suc i) rest table"
  | (stopped) e where "message_of row \<noteq> []"
      "outbox_loop env i (row # rest) table =
         (Some e, table, [OutboxSend (row_id row) (target_of env row) (message_of row)])"
  | (went_on) table1 t table' sends where "message_of row \<noteq> []"
      "table1 = table \<or> (\<exists>ts wa. table1 = update_sent table (row_id row) ts wa)"
      "outbox_loop env (Suc i) rest table1 = (t, table', sends)"
      "outbox_loop env i (row # rest) table =
         (t, table', OutboxSend (row_id row) (target_of env row) (message_of row) # sends)"
proof (cases "message_of row = []")
  case True
  then show ?thesis using blank by simp
next
  case False
  note msg = this
  show ?thesis
  proof (cases "sendMessage env i (target_of env row) (message_of row)")
    case (Thrown e)
    then show ?thesis using stopped msg by simp
  next
    case (Returned res)
    note res = this
    show ?thesis
    proof (cases "update_status env i")
      case Applied
      obtain t table' sends where rec: "outbox_loop env (Suc i) rest
          (update_sent table (row_id row) (now env i) (receipt_id res)) = (t, table', sends)"
        using prod_cases3 by blast
      have "outbox_loop env i (row # rest) table =
         (t, table', OutboxSend (row_id row) (target_of env row) (message_of row) # sends)"
        using rec msg res Applied by simp
      moreover have "update_sent table (row_id row) (now env i) (receipt_id res) = table \<or>
        (\<exists>ts wa. update_sent table (row_id row) (now env i) (receipt_id res) =
           update_sent table (row_id row) ts wa)" by blast
      ultimately show ?thesis using went_on msg rec by blast
    next
      case (Refused e)
      obtain t table' sends where rec: "outbox_loop env (Suc i) rest table = (t, table', sends)"
        using prod_cases3 by blast
      have "outbox_loop env i (row # rest) table =
         (t, table', OutboxSend (row_id row) (target_of env row) (message_of row) # sends)"
        using rec msg res Refused by simp
      then show ?thesis using went_on msg rec by blast
    next
      case (Failed e)
      then show ?thesis using stopped msg res by simp
    qed
  qed
qed

lemma update_sent_ids: "map row_id (update_sent table k ts wa) = map row_id table"
  unfolding update_sent_def by (induction table) simp_all

lemma update_sent_keeps:
  "r \<in> set table \<Longrightarrow> row_id r \<noteq> k \<Longrightarrow> r \<in> set (update_sent table k ts wa)"
  unfolding update_sent_def by (induction table) auto

lemma update_sent_done:
  assumes "r \<in> set (update_sent table k ts wa)" and "row_id r = k"
  shows "sent_at r \<noteq> None"
proof -
  from assms(1)
  have "r \<in> (\<lambda>r. if row_id r = k then r\<lparr>sent_at := Some ts, wa_msg_id := wa\<rparr> else r) ` set table"
    unfolding update_sent_def by simp
  then obtain r0 where r0:
    "r = (if row_id r0 = k then r0\<lparr>sent_at := Some ts, wa_msg_id := wa\<rparr> else r0)"
    by blast
  show ?thesis
  proof (cases "row_id r0 = k")
    case True
    with r0 show ?thesis by simp
  next
    case False
    with r0 assms(2) show ?thesis by simp
  qed
qed

lemma update_sent_stays:
  assumes "\<forall>r\<in>set table. row_id r = k \<longrightarrow> sent_at r \<noteq> None"
  shows "\<forall>r\<in>set (update_sent table j ts wa). row_id r = k \<longrightarrow> sent_at r \<noteq> None"
proof (intro ballI impI)
  fix r
  assume r: "r \<in> set (update_sent table j ts wa)" and k: "row_id r = k"
  obtain r0 where r0: "r0 \<in> set table"
    "r = (if row_id r0 = j then r0\<lparr>sent_at := Some ts, wa_msg_id := wa\<rparr> else r0)"
    using r unfolding update_sent_def by auto
  show "sent_at r \<noteq> None"
  proof (cases "row_id r0 = j")
    case True
    with r0 show ?thesis by simp
  next
    case False
    with r0 k assms show ?thesis by simp
  qed
qed

lemma outbox_loop_ids:
  "outbox_loop env i batch table = (t, table', sends) \<Longrightarrow> map row_id table' = map row_id table"
proof (induction batch arbitrary: i table t table' sends)
  case Nil
  then show ?case by simp
next
  case (Cons row rest)
  show ?case
  proof (cases rule: outbox_loop_Cons_cases [of row env i rest table])
    case blank
    from Cons.prems [unfolded blank(2)] show ?thesis by (rule Cons.IH)
  next
    case (stopped e)
    from Cons.prems [unfolded stopped(2)] show ?thesis by simp
  next
    case (went_on table1 t1 table1' sends1)
    from Cons.prems [unfolded went_on(4)] have eq: "table' = table1'" by simp
    have "map row_id table1 = map row_id table"
      using went_on(2) update_sent_ids by metis
    moreover have "map row_id table1' = map row_id table1"
      using Cons.IH [OF went_on(3)] .
    ultimately show ?thesis using eq by simp
  qed
qed

lemma outbox_loop_sends:
  "outbox_loop env i batch table = (t, table', sends) \<Longrightarrow>
     sent_row ` set sends \<subseteq> row_id ` {b \<in> set batch. message_of b \<noteq> []}"
proof (induction batch arbitrary: i table t table' sends)
  case Nil
  then show ?case by simp
next
  case (Cons row rest)
  show ?case
  proof (cases rule: outbox_loop_Cons_cases [of row env i rest table])
    case blank
    from Cons.prems [unfolded blank(2)] Cons.IH
    have "sent_row ` set sends \<subseteq> row_id ` {b \<in> set rest. message_of b \<noteq> []}" by blast
    then show ?thesis by auto
  next
    case (stopped e)
    from Cons.prems [unfolded stopped(2)]
    have "sends = [OutboxSend (row_id row) (target_of env row) (message_of row)]" by simp
    then show ?thesis using stopped(1) by simp
  next
    case (went_on table1 t1 table1' sends1)
    from Cons.prems [unfolded went_on(4)]
    have eq: "sends = OutboxSend (row_id row) (target_of env row) (message_of row) # sends1"
      by simp
    have "sent_row ` set sends1 \<subseteq> row_id ` {b \<in> set rest. message_of b \<noteq> []}"
      using Cons.IH [OF went_on(3)] .
    then show ?thesis using eq went_on(1) by auto
  qed
qed

lemma outbox_loop_keeps:
  "outbox_loop env i batch table = (t, table', sends) \<Longrightarrow> r \<in> set table \<Longrightarrow>
     \<forall>b\<in>set batch. row_id b = row_id r \<longrightarrow> message_of b = [] \<Longrightarrow> r \<in> set table'"
proof (induction batch arbitrary: i table t table' sends)
  case Nil
  then show ?case by simp
next
  case (Cons row rest)
  have rest: "\<forall>b\<in>set rest. row_id b = row_id r \<longrightarrow> message_of b = []"
    using Cons.prems(3) by simp
  show ?case
  proof (cases rule: outbox_loop_Cons_cases [of row env i rest table])
    case blank
    from Cons.prems(1) [unfolded blank(2)] Cons.prems(2) rest show ?thesis by (rule Cons.IH)
  next
    case (stopped e)
    from Cons.prems(1) [unfolded stopped(2)] Cons.prems(2) show ?thesis by simp
  next
    case (went_on table1 t1 table1' sends1)
    from Cons.prems(1) [unfolded went_on(4)] have eq: "table' = table1'" by simp
    have "row_id row \<noteq> row_id r" using went_on(1) Cons.prems(3) by auto
    then have "r \<in> set table1"
      using went_on(2) Cons.prems(2) update_sent_keeps by metis
    from Cons.IH [OF went_on(3) this rest] show ?thesis using eq by simp
  qed
qed

lemma outbox_loop_sent_stays:
  "outbox_loop env i batch table = (t, table', sends) \<Longrightarrow>
     \<forall>r\<in>set table. row_id r = k \<longrightarrow> sent_at r \<noteq> None \<Longrightarrow>
     \<forall>r\<in>set table'. row_id r = k \<longrightarrow> sent_at r \<noteq> None"
proof (induction batch arbitrary: i table t table' sends)
  case Nil
  then show ?case by simp
next
  case (Cons row rest)
  show ?case
  proof (cases rule: outbox_loop_Cons_cases [of row env i rest table])
    case blank
    from Cons.prems(1) [unfolded blank(2)] Cons.prems(2) show ?thesis by (rule Cons.IH)
  next
    case (stopped e)
    from Cons.prems(1) [unfolded stopped(2)] Cons.prems(2) show ?thesis by simp
  next
    case (went_on table1 t1 table1' sends1)
    from Cons.prems(1) [unfolded went_on(4)] have eq: "table' = table1'" by simp
    have "\<forall>r\<in>set table1. row_id r = k \<longrightarrow> sent_at r \<noteq> None"
      using went_on(2) Cons.prems(2) update_sent_stays [OF Cons.prems(2)] by metis
    from Cons.IH [OF went_on(3) this] show ?thesis using eq by simp
  qed
qed

lemma outbox_loop_append:
  "outbox_loop env i (xs @ ys) table =
     (case outbox_loop env i xs table of
        (None, table1, sends1) \<Rightarrow>
          (case outbox_loop env (i + length xs) ys table1 of
             (t, table2, sends2) \<Rightarrow> (t, table2, sends1 @ sends2))
      | (Some e, table1, sends1) \<Rightarrow> (Some e, table1, sends1))"
proof (induction xs arbitrary: i table)
  case Nil
  then show ?case by (simp split: prod.splits)
next
  case (Cons row rest)
  show ?case
  proof (cases "message_of row = []")
    case True
    then show ?thesis using Cons.IH [of "Suc i" table]
      by (simp split: prod.splits option.splits)
  next
    case False
    note msg = this
    show ?thesis
    proof (cases "sendMessage env i (target_of env row) (message_of row)")
      case (Thrown e)
      then show ?thesis using msg by simp
    next
      case (Returned res)
      note res = this
      show ?thesis
      proof (cases "update_status env i")
        case Applied
        then show ?thesis
          using msg res
            Cons.IH [of "Suc i" "update_sent table (row_id row) (now env i) (receipt_id res)"]
          by (simp split: prod.splits option.splits)
      next
        case (Refused e)
        then show ?thesis
          using msg res Cons.IH [of "Suc i" table]
          by (simp split: prod.splits option.splits)
      next
        case (Failed e)
        then show ?thesis using msg res by simp
      qed
    qed
  qed
qed

lemma poll_via_selected:
  "pollOutboxAndSend env table =
     (case outbox_loop env 0 (selected env table) table of (t, table', sends) \<Rightarrow> (table', sends))"
  by (simp add: pollOutboxAndSend_def selected_def split: outcome.splits prod.splits)

lemma selected_cases:
  "selected env table = [] \<or> selected env table = take 50 (filter (\<lambda>r. sent_at r = None) table)"
  by (simp add: selected_def select_unsent_def split: db_status.splits)

lemma selected_Applied:
  "select_status env = Applied \<Longrightarrow>
     selected env table = take 50 (filter (\<lambda>r. sent_at r = None) table)"
  by (simp add: selected_def select_unsent_def)

lemma selected_subset: "set (selected env table) \<subseteq> {r \<in> set table. sent_at r = None}"
proof -
  have "set (take 50 (filter (\<lambda>r. sent_at r = None) table)) \<subseteq> {r \<in> set table. sent_at r = None}"
    using set_take_subset [of 50 "filter (\<lambda>r. sent_at r = None) table"] by auto
  then show ?thesis using selected_cases [of env table] by auto
qed

lemma selected_distinct:
  assumes "distinct (map row_id table)"
  shows "distinct (map row_id (selected env table))"
proof -
  have "distinct (map row_id (filter (\<lambda>r. sent_at r = None) table))"
    using assms by (rule distinct_map_filter)
  then have "distinct (take 50 (map row_id (filter (\<lambda>r. sent_at r = None) table)))"
    by (rule distinct_take)
  then have "distinct (map row_id (take 50 (filter (\<lambda>r. sent_at r = None) table)))"
    by (simp add: take_map)
  then show ?thesis using selected_cases [of env table] by auto
qed

lemma same_id_same_row:
  "distinct (map row_id table) \<Longrightarrow> a \<in> set table \<Longrightarrow> b \<in> set table \<Longrightarrow>
     row_id a = row_id b \<Longrightarrow> a = b"
  by (meson distinct_map inj_onD)

lemma poll_ids: "map row_id (fst (pollOutboxAndSend env table)) = map row_id table"
proof -
  obtain t table' sends where l: "outbox_loop env 0 (selected env table) table = (t, table', sends)"
    using prod_cases3 by blast
  then have "fst (pollOutboxAndSend env table) = table'" by (simp add: poll_via_selected)
  then show ?thesis using outbox_loop_ids [OF l] by simp
qed

lemma poll_sends: "sent_row ` set (snd (pollOutboxAndSend env table)) \<subseteq>
    row_id ` {b \<in> set (selected env table). message_of b \<noteq> []}"
proof -
  obtain t table' sends where l: "outbox_loop env 0 (selected env table) table = (t, table', sends)"
    using prod_cases3 by blast
  then have "snd (pollOutboxAndSend env table) = sends" by (simp add: poll_via_selected)
  then show ?thesis using outbox_loop_sends [OF l] by simp
qed

lemma poll_keeps_blank:
  assumes "distinct (map row_id table)" and "r \<in> set table" and "message_of r = []"
  shows "r \<in> set (fst (pollOutboxAndSend env table))"
proof -
  obtain t table' sends where l: "outbox_loop env 0 (selected env table) table = (t, table', sends)"
    using prod_cases3 by blast
  then have f: "fst (pollOutboxAndSend env table) = table'" by (simp add: poll_via_selected)
  have "\<forall>b\<in>set (selected env table). row_id b = row_id r \<longrightarrow> message_of b = []"
  proof (intro ballI impI)
    fix b
    assume "b \<in> set (selected env table)" and "row_id b = row_id r"
    then have "b = r" using selected_subset [of env table] assms(1,2) same_id_same_row by blast
    then show "message_of b = []" using assms(3) by simp
  qed
  from outbox_loop_keeps [OF l assms(2) this] f show ?thesis by simp
qed

lemma poll_sent_stays:
  assumes "\<forall>r\<in>set table. row_id r = k \<longrightarrow> sent_at r \<noteq> None"
  shows "\<forall>r\<in>set (fst (pollOutboxAndSend env table)). row_id r = k \<longrightarrow> sent_at r \<noteq> None"
proof -
  obtain t table' sends where l: "outbox_loop env 0 (selected env table) table = (t, table', sends)"
    using prod_cases3 by blast
  then have f: "fst (pollOutboxAndSend env table) = table'" by (simp add: poll_via_selected)
  from outbox_loop_sent_stays [OF l assms] f show ?thesis by simp
qed

lemma cycles_ids: "map row_id (outbox_cycles envs table) = map row_id table"
  by (induction envs arbitrary: table) (simp_all add: poll_ids)

lemma cycles_keep_blank:
  "distinct (map row_id table) \<Longrightarrow> r \<in> set table \<Longrightarrow> message_of r = [] \<Longrightarrow>
     r \<in> set (outbox_cycles envs table)"
proof (induction envs arbitrary: table)
  case Nil
  then show ?case by simp
next
  case (Cons env envs)
  have "distinct (map row_id (fst (pollOutboxAndSend env table)))"
    using Cons.prems(1) by (simp add: poll_ids)
  moreover have "r \<in> set (fst (pollOutboxAndSend env table))"
    using Cons.prems by (rule poll_keeps_blank)
  ultimately show ?case using Cons.IH Cons.prems(3) by simp
qed

lemma cycles_sent_stays:
  "\<forall>r\<in>set table. row_id r = k \<longrightarrow> sent_at r \<noteq> None \<Longrightarrow>
     \<forall>r\<in>set (outbox_cycles envs table). row_id r = k \<longrightarrow> sent_at r \<noteq> None"
proof (induction envs arbitrary: table)
  case Nil
  then show ?case by simp
next
  case (Cons env envs)
  from Cons.IH [OF poll_sent_stays [OF Cons.prems]] show ?case by simp
qed

lemma sent_not_selected:
  assumes "\<forall>r\<in>set table. row_id r = k \<longrightarrow> sent_at r \<noteq> None"
  shows "k \<notin> row_id ` set (selected env table)"
  using assms selected_subset [of env table] by fastforce

lemma ids_apart:
  assumes "distinct (map row_id (xs @ ys))" and "b \<in> set xs" and "r \<in> set ys"
  shows "row_id b \<noteq> row_id r"
proof -
  have "row_id ` set xs \<inter> row_id ` set ys = {}" using assms(1) by simp
  then show ?thesis using assms(2,3) by blast
qed

lemma outbox_loop_blanks:
  "\<forall>b\<in>set batch. message_of b = [] \<Longrightarrow> outbox_loop env i batch table = (None, table, [])"
  by (induction batch arbitrary: i) simp_all

lemma message_of_blank: "message_of (blank_row k) = []"
  by (simp add: blank_row_def message_of_def)

lemma unsent_blank: "sent_at (blank_row k) = None"
  by (simp add: blank_row_def)

lemma unsent_blanks: "filter (\<lambda>r. sent_at r = None) (map blank_row ks) = map blank_row ks"
  by (induction ks) (simp_all add: unsent_blank)

lemma selected_queued: "selected ok_env queued_behind_blanks = map blank_row [0..<50]"
proof -
  have "filter (\<lambda>r. sent_at r = None) queued_behind_blanks = queued_behind_blanks"
    by (simp add: queued_behind_blanks_def unsent_blanks text_row_def)
  moreover have "take 50 queued_behind_blanks = map blank_row [0..<50]"
    by (simp add: queued_behind_blanks_def)
  moreover have "select_status ok_env = Applied" by (simp add: ok_env_def)
  ultimately show ?thesis by (simp add: selected_Applied)
qed

text \<open>
  An unsent row with a message is not selected by every cycle: behind fifty unsent rows
  with no message it is outside the batch of fifty, the cycle sends nothing and leaves the
  table as it was, so the next cycle finds the same table.
\<close>

theorem unsent_row_starved_counterexample:
  "text_row 50 ''hi'' \<in> set queued_behind_blanks
   \<and> sent_at (text_row 50 ''hi'') = None
   \<and> message_of (text_row 50 ''hi'') = ''hi''
   \<and> text_row 50 ''hi'' \<notin> set (selected ok_env queued_behind_blanks)
   \<and> pollOutboxAndSend ok_env queued_behind_blanks = (queued_behind_blanks, [])"
proof -
  have 1: "text_row 50 ''hi'' \<in> set queued_behind_blanks"
    by (simp add: queued_behind_blanks_def)
  have 2: "sent_at (text_row 50 ''hi'') = None" "message_of (text_row 50 ''hi'') = ''hi''"
    by (simp_all add: text_row_def message_of_def)
  have 3: "text_row 50 ''hi'' \<notin> set (selected ok_env queued_behind_blanks)"
    by (auto simp: selected_queued text_row_def blank_row_def)
  have "outbox_loop ok_env 0 (map blank_row [0..<50]) queued_behind_blanks =
      (None, queued_behind_blanks, [])"
    by (rule outbox_loop_blanks) (auto simp: message_of_blank)
  then have 4: "pollOutboxAndSend ok_env queued_behind_blanks = (queued_behind_blanks, [])"
    by (simp add: poll_via_selected selected_queued)
  show ?thesis using 1 2 3 4 by simp
qed

text \<open>
  Claim C2, amended. In a table with unique ids, take a row with a message that the
  cycle has selected, and let the rows before it in the batch pass without an exception.
  Then the cycle calls \<open>sendMessage\<close> for the row. If that send throws, the row is
  still unsent in the table after the cycle. If the send returns and the update is
  applied, then in every later cycle no row with this id is selected and no send is made
  for this id.
\<close>

theorem selected_row_sent_then_excluded:
  assumes sel: "selected env table = before @ row # rest"
    and pre: "outbox_loop env 0 before table = (None, table1, sends1)"
    and msg: "message_of row \<noteq> []"
    and ids: "distinct (map row_id table)"
  shows "OutboxSend (row_id row) (target_of env row) (message_of row)
        \<in> set (snd (pollOutboxAndSend env table))
    \<and> (\<forall>e. sendMessage env (length before) (target_of env row) (message_of row) = Thrown e \<longrightarrow>
          row \<in> set (filter (\<lambda>r. sent_at r = None) (fst (pollOutboxAndSend env table))))
    \<and> (\<forall>res. sendMessage env (length before) (target_of env row) (message_of row) = Returned res
          \<and> update_status env (length before) = Applied \<longrightarrow>
          (\<forall>envs env'.
             row_id row \<notin> row_id ` set (selected env' (outbox_cycles envs (fst (pollOutboxAndSend env table))))
             \<and> row_id row \<notin> sent_row `
                 set (snd (pollOutboxAndSend env' (outbox_cycles envs (fst (pollOutboxAndSend env table)))))))"
proof -
  let ?c = "OutboxSend (row_id row) (target_of env row) (message_of row)"
  obtain t2 table2 sends2 where l2:
    "outbox_loop env (length before) (row # rest) table1 = (t2, table2, sends2)"
    using prod_cases3 by blast
  have whole: "pollOutboxAndSend env table = (table2, sends1 @ sends2)"
    using sel pre l2 by (simp add: poll_via_selected outbox_loop_append)
  have row_in: "row \<in> set table" "sent_at row = None"
    using selected_subset [of env table] sel by auto
  have batch_ids: "distinct (map row_id (before @ row # rest))"
    using selected_distinct [OF ids, of env] sel by simp
  have row1: "row \<in> set table1"
  proof (rule outbox_loop_keeps [OF pre row_in(1)])
    show "\<forall>b\<in>set before. row_id b = row_id row \<longrightarrow> message_of b = []"
      using ids_apart [OF batch_ids, of _ row] by auto
  qed
  have attempted: "?c \<in> set (snd (pollOutboxAndSend env table))"
  proof (cases rule: outbox_loop_Cons_cases [of row env "length before" rest table1])
    case blank
    then show ?thesis using msg by simp
  next
    case (stopped e)
    from l2 [unfolded stopped(2)] have "sends2 = [?c]" by simp
    then show ?thesis using whole by simp
  next
    case (went_on table3 t3 table3' sends3)
    from l2 [unfolded went_on(4)] have "sends2 = ?c # sends3" by simp
    then show ?thesis using whole by simp
  qed
  have retried: "row \<in> set (filter (\<lambda>r. sent_at r = None) (fst (pollOutboxAndSend env table)))"
    if "sendMessage env (length before) (target_of env row) (message_of row) = Thrown e" for e
  proof -
    have "outbox_loop env (length before) (row # rest) table1 = (Some e, table1, [?c])"
      using that msg by simp
    from l2 [unfolded this] have "table2 = table1" by simp
    then have "fst (pollOutboxAndSend env table) = table1" using whole by simp
    then show ?thesis using row1 row_in(2) by simp
  qed
  have excluded:
    "row_id row \<notin> row_id ` set (selected env' (outbox_cycles envs (fst (pollOutboxAndSend env table))))
     \<and> row_id row \<notin> sent_row `
         set (snd (pollOutboxAndSend env' (outbox_cycles envs (fst (pollOutboxAndSend env table)))))"
    if a: "sendMessage env (length before) (target_of env row) (message_of row) = Returned res
          \<and> update_status env (length before) = Applied" for res envs env'
  proof -
    let ?u = "update_sent table1 (row_id row) (now env (length before)) (receipt_id res)"
    obtain t3 table3 sends3 where l3:
      "outbox_loop env (Suc (length before)) rest ?u = (t3, table3, sends3)"
      using prod_cases3 by blast
    have "outbox_loop env (length before) (row # rest) table1 = (t3, table3, ?c # sends3)"
      using a msg l3 by simp
    from l2 [unfolded this] have "table2 = table3" by simp
    then have after: "fst (pollOutboxAndSend env table) = table3" using whole by simp
    have "\<forall>r\<in>set ?u. row_id r = row_id row \<longrightarrow> sent_at r \<noteq> None"
      using update_sent_done by blast
    then have "\<forall>r\<in>set table3. row_id r = row_id row \<longrightarrow> sent_at r \<noteq> None"
      by (rule outbox_loop_sent_stays [OF l3])
    then have "\<forall>r\<in>set (outbox_cycles envs (fst (pollOutboxAndSend env table))).
        row_id r = row_id row \<longrightarrow> sent_at r \<noteq> None"
      unfolding after by (rule cycles_sent_stays)
    then have ns: "row_id row \<notin>
        row_id ` set (selected env' (outbox_cycles envs (fst (pollOutboxAndSend env table))))"
      by (rule sent_not_selected)
    then have "row_id row \<notin> sent_row `
        set (snd (pollOutboxAndSend env' (outbox_cycles envs (fst (pollOutboxAndSend env table)))))"
      using poll_sends [of env' "outbox_cycles envs (fst (pollOutboxAndSend env table))"] by auto
    with ns show ?thesis by simp
  qed
  show ?thesis using attempted retried excluded by blast
qed

text \<open>
  A send that throws ends the cycle: both rows are selected, the send for the first throws,
  and no send is made for the second.
\<close>

theorem outbox_send_failure_counterexample:
  "selected fail_first_env two_rows = two_rows
   \<and> message_of (text_row 2 ''second'') = ''second''
   \<and> sendMessage fail_first_env 0 ''g@g.us'' ''first'' = Thrown ''Connection Closed''
   \<and> pollOutboxAndSend fail_first_env two_rows =
       (two_rows, [OutboxSend 1 ''g@g.us'' ''first''])"
  by (simp add: pollOutboxAndSend_def select_unsent_def selected_def fail_first_env_def ok_env_def
      two_rows_def text_row_def message_of_def target_of_def)

text \<open>
  Claim C3, amended. When the send for a selected row throws, the cycle ends there: the
  failed call is the last call of \<open>sendMessage\<close>, so no later row of the batch is
  attempted in this cycle. The failure is caught, and in a table with unique ids the
  failed row and every later row of the batch are still unsent after the cycle, where the
  next cycle's filter finds them.
\<close>

theorem send_failure_ends_outbox_cycle:
  assumes sel: "selected env table = before @ row # rest"
    and pre: "outbox_loop env 0 before table = (None, table1, sends1)"
    and msg: "message_of row \<noteq> []"
    and thrown: "sendMessage env (length before) (target_of env row) (message_of row) = Thrown e"
    and ids: "distinct (map row_id table)"
  shows "pollOutboxAndSend env table =
      (table1, sends1 @ [OutboxSend (row_id row) (target_of env row) (message_of row)])
    \<and> set (row # rest) \<subseteq> set (filter (\<lambda>r. sent_at r = None) table1)"
proof
  have "outbox_loop env (length before) (row # rest) table1 =
      (Some e, table1, [OutboxSend (row_id row) (target_of env row) (message_of row)])"
    using msg thrown by simp
  then show "pollOutboxAndSend env table =
      (table1, sends1 @ [OutboxSend (row_id row) (target_of env row) (message_of row)])"
    using sel pre by (simp add: poll_via_selected outbox_loop_append)
  have batch_ids: "distinct (map row_id (before @ row # rest))"
    using selected_distinct [OF ids, of env] sel by simp
  show "set (row # rest) \<subseteq> set (filter (\<lambda>r. sent_at r = None) table1)"
  proof
    fix r
    assume r: "r \<in> set (row # rest)"
    then have in_table: "r \<in> set table" "sent_at r = None"
      using selected_subset [of env table] sel by auto
    have "r \<in> set table1"
    proof (rule outbox_loop_keeps [OF pre in_table(1)])
      show "\<forall>b\<in>set before. row_id b = row_id r \<longrightarrow> message_of b = []"
        using ids_apart [OF batch_ids _ r] by auto
    qed
    then show "r \<in> set (filter (\<lambda>r. sent_at r = None) table1)" using in_table(2) by simp
  qed
qed

text \<open>
  A row with no message is not selected by every cycle: of fifty-one such rows the cycle
  selects fifty, changes nothing, and the last row is not among the selected rows of the
  next cycle.
\<close>

theorem blank_row_beyond_batch_counterexample:
  "blank_row 50 \<in> set fifty_one_blanks
   \<and> message_of (blank_row 50) = []
   \<and> sent_at (blank_row 50) = None
   \<and> fst (pollOutboxAndSend ok_env fifty_one_blanks) = fifty_one_blanks
   \<and> blank_row 50 \<notin> set (selected ok_env (fst (pollOutboxAndSend ok_env fifty_one_blanks)))"
proof -
  have sel: "selected ok_env fifty_one_blanks = map blank_row [0..<50]"
  proof -
    have "take 50 (map blank_row [0..<51]) = map blank_row [0..<50]"
      by (simp add: take_map)
    moreover have "select_status ok_env = Applied" by (simp add: ok_env_def)
    ultimately show ?thesis by (simp add: selected_Applied fifty_one_blanks_def unsent_blanks)
  qed
  have "outbox_loop ok_env 0 (map blank_row [0..<50]) fifty_one_blanks =
      (None, fifty_one_blanks, [])"
    by (rule outbox_loop_blanks) (auto simp: message_of_blank)
  then have 1: "fst (pollOutboxAndSend ok_env fifty_one_blanks) = fifty_one_blanks"
    by (simp add: poll_via_selected sel)
  have 2: "blank_row 50 \<notin> set (selected ok_env fifty_one_blanks)"
    by (auto simp: sel blank_row_def)
  have 3: "blank_row 50 \<in> set fifty_one_blanks" by (simp add: fifty_one_blanks_def)
  show ?thesis using 1 2 3 by (simp add: message_of_blank unsent_blank)
qed

text \<open>
  Claim C10, amended. In a table with unique ids, a row whose message is empty or absent
  and whose \<open>sent_at\<close> is unset is still in the table, unchanged, after any number of
  cycles; no cycle makes a send for its id; it matches the filter of every later cycle,
  and such a cycle selects it whenever the query succeeds and at most fifty rows are
  unsent.
\<close>

theorem blank_row_never_sent:
  assumes ids: "distinct (map row_id table)"
    and r: "r \<in> set table"
    and blank: "message_of r = []"
    and unsent: "sent_at r = None"
  shows "r \<in> set (outbox_cycles envs table)
    \<and> row_id r \<notin> sent_row ` set (snd (pollOutboxAndSend env (outbox_cycles envs table)))
    \<and> r \<in> set (filter (\<lambda>r. sent_at r = None) (outbox_cycles envs table))
    \<and> (select_status env = Applied
          \<and> length (filter (\<lambda>r. sent_at r = None) (outbox_cycles envs table)) \<le> 50 \<longrightarrow>
        r \<in> set (selected env (outbox_cycles envs table)))"
proof (intro conjI impI)
  let ?T = "outbox_cycles envs table"
  show kept: "r \<in> set ?T" using ids r blank by (rule cycles_keep_blank)
  have idsT: "distinct (map row_id ?T)" using ids by (simp add: cycles_ids)
  show "row_id r \<notin> sent_row ` set (snd (pollOutboxAndSend env ?T))"
  proof
    assume "row_id r \<in> sent_row ` set (snd (pollOutboxAndSend env ?T))"
    then obtain b where b: "b \<in> set (selected env ?T)" "message_of b \<noteq> []" "row_id b = row_id r"
      using poll_sends [of env ?T] by auto
    then have "b = r" using selected_subset [of env ?T] idsT kept same_id_same_row by blast
    then show False using b(2) blank by simp
  qed
  show "r \<in> set (filter (\<lambda>r. sent_at r = None) ?T)" using kept unsent by simp
  assume "select_status env = Applied \<and> length (filter (\<lambda>r. sent_at r = None) ?T) \<le> 50"
  then show "r \<in> set (selected env ?T)" using kept unsent by (simp add: selected_Applied)
qed

lemmas outbox_eval =
  pollOutboxAndSend_def select_unsent_def selected_def ok_env_def fail_first_env_def
  fail_second_env_def two_rows_def mixed_rows_def text_row_def blank_row_def message_of_def
  target_of_def update_sent_def receipt_id_def

theorem selected_row_sent_then_excluded_witness:
  "selected ok_env two_rows = [text_row 1 ''first''] @ text_row 2 ''second'' # []
   \<and> OutboxSend 2 ''g@g.us'' ''second'' \<in> set (snd (pollOutboxAndSend ok_env two_rows))
   \<and> sendMessage ok_env 1 ''g@g.us'' ''second'' = Returned (Some ''m1'')
   \<and> update_status ok_env 1 = Applied
   \<and> 2 \<notin> row_id ` set (selected ok_env
         (outbox_cycles [ok_env] (fst (pollOutboxAndSend ok_env two_rows))))
   \<and> 2 \<notin> sent_row ` set (snd (pollOutboxAndSend ok_env
         (outbox_cycles [ok_env] (fst (pollOutboxAndSend ok_env two_rows)))))
   \<and> sendMessage fail_second_env 1 ''g@g.us'' ''second'' = Thrown ''Connection Closed''
   \<and> text_row 2 ''second'' \<in> set (filter (\<lambda>r. sent_at r = None)
         (fst (pollOutboxAndSend fail_second_env two_rows)))"
proof -
  have sel: "selected ok_env two_rows = [text_row 1 ''first''] @ text_row 2 ''second'' # []"
    by (simp add: outbox_eval)
  have sel': "selected fail_second_env two_rows = [text_row 1 ''first''] @ text_row 2 ''second'' # []"
    by (simp add: outbox_eval)
  obtain table1 sends1 where pre:
    "outbox_loop ok_env 0 [text_row 1 ''first''] two_rows = (None, table1, sends1)"
    by (simp add: outbox_eval)
  obtain table1' sends1' where pre':
    "outbox_loop fail_second_env 0 [text_row 1 ''first''] two_rows = (None, table1', sends1')"
    by (simp add: outbox_eval)
  have msg: "message_of (text_row 2 ''second'') \<noteq> []" by (simp add: outbox_eval)
  have ids: "distinct (map row_id two_rows)" by (simp add: outbox_eval)
  have 1: "sendMessage ok_env 1 ''g@g.us'' ''second'' = Returned (Some ''m1'')"
    "update_status ok_env 1 = Applied"
    "sendMessage fail_second_env 1 ''g@g.us'' ''second'' = Thrown ''Connection Closed''"
    by (simp_all add: outbox_eval)
  have 2: "target_of ok_env (text_row 2 ''second'') = ''g@g.us''"
    "target_of fail_second_env (text_row 2 ''second'') = ''g@g.us''"
    "message_of (text_row 2 ''second'') = ''second''"
    "row_id (text_row 2 ''second'') = 2"
    by (simp_all add: outbox_eval)
  show ?thesis
    using selected_row_sent_then_excluded [OF sel pre msg ids]
      selected_row_sent_then_excluded [OF sel' pre' msg ids] sel 1 2
    by (simp del: outbox_cycles.simps) blast
qed

theorem send_failure_ends_outbox_cycle_witness:
  "selected fail_second_env two_rows = [text_row 1 ''first''] @ text_row 2 ''second'' # []
   \<and> sendMessage fail_second_env 1 ''g@g.us'' ''second'' = Thrown ''Connection Closed''
   \<and> snd (pollOutboxAndSend fail_second_env two_rows) =
       [OutboxSend 1 ''g@g.us'' ''first''] @ [OutboxSend 2 ''g@g.us'' ''second'']
   \<and> set (text_row 2 ''second'' # []) \<subseteq>
       set (filter (\<lambda>r. sent_at r = None) (fst (pollOutboxAndSend fail_second_env two_rows)))"
proof -
  have sel: "selected fail_second_env two_rows = [text_row 1 ''first''] @ text_row 2 ''second'' # []"
    by (simp add: outbox_eval)
  obtain table1 where pre:
    "outbox_loop fail_second_env 0 [text_row 1 ''first''] two_rows =
       (None, table1, [OutboxSend 1 ''g@g.us'' ''first''])"
    by (simp add: outbox_eval)
  have msg: "message_of (text_row 2 ''second'') \<noteq> []" by (simp add: outbox_eval)
  have ids: "distinct (map row_id two_rows)" by (simp add: outbox_eval)
  have 2: "target_of fail_second_env (text_row 2 ''second'') = ''g@g.us''"
    "message_of (text_row 2 ''second'') = ''second''"
    "row_id (text_row 2 ''second'') = 2"
    by (simp_all add: outbox_eval)
  have thrown: "sendMessage fail_second_env (length [text_row 1 ''first''])
      (target_of fail_second_env (text_row 2 ''second'')) (message_of (text_row 2 ''second'')) =
      Thrown ''Connection Closed''"
    by (simp add: outbox_eval)
  have 1: "sendMessage fail_second_env 1 ''g@g.us'' ''second'' = Thrown ''Connection Closed''"
    by (simp add: outbox_eval)
  show ?thesis
    using send_failure_ends_outbox_cycle [OF sel pre msg thrown ids] sel 1 2 by simp
qed

theorem blank_row_never_sent_witness:
  "distinct (map row_id mixed_rows) \<and> blank_row 1 \<in> set mixed_rows
   \<and> message_of (blank_row 1) = [] \<and> sent_at (blank_row 1) = None
   \<and> blank_row 1 \<in> set (outbox_cycles [ok_env, ok_env] mixed_rows)
   \<and> 1 \<notin> sent_row ` set (snd (pollOutboxAndSend ok_env (outbox_cycles [ok_env, ok_env] mixed_rows)))
   \<and> blank_row 1 \<in> set (filter (\<lambda>r. sent_at r = None) (outbox_cycles [ok_env, ok_env] mixed_rows))
   \<and> select_status ok_env = Applied
   \<and> length (filter (\<lambda>r. sent_at r = None) (outbox_cycles [ok_env, ok_env] mixed_rows)) \<le> 50
   \<and> blank_row 1 \<in> set (selected ok_env (outbox_cycles [ok_env, ok_env] mixed_rows))"
proof -
  have ids: "distinct (map row_id mixed_rows)" by (simp add: outbox_eval)
  have r: "blank_row 1 \<in> set mixed_rows" by (simp add: outbox_eval)
  have blank: "message_of (blank_row 1) = []" by (simp add: outbox_eval)
  have unsent: "sent_at (blank_row 1) = None" by (simp add: outbox_eval)
  have 1: "row_id (blank_row 1) = 1" by (simp add: outbox_eval)
  have 2: "select_status ok_env = Applied" by (simp add: outbox_eval)
  have 3: "length (filter (\<lambda>r. sent_at r = None) (outbox_cycles [ok_env, ok_env] mixed_rows)) \<le> 50"
    by (simp add: outbox_eval)
  show ?thesis
    using blank_row_never_sent [OF ids r blank unsent, of "[ok_env, ok_env]" ok_env]
      ids r blank unsent 1 2 3
    by simp
qed

section \<open>Properties of the sent cache\<close>

lemma foldl_Set_add_distinct:
  "distinct (acc @ l) \<Longrightarrow> foldl Set_add acc l = acc @ l"
proof (induction l arbitrary: acc)
  case Nil
  then show ?case by simp
next
  case (Cons v l)
  have "Set_add acc v = acc @ [v]" using Cons.prems by (simp add: Set_add_def Set_has_def)
  moreover have "distinct ((acc @ [v]) @ l)" using Cons.prems by simp
  ultimately show ?case using Cons.IH [of "acc @ [v]"] by simp
qed

lemma loadSentCache_array:
  "P t = Returned (JArray l) \<Longrightarrow> distinct l \<Longrightarrow> loadSentCache P (Content t) = l"
  using foldl_Set_add_distinct [of "[]" l]
  by (simp add: loadSentCache_def loadSentCache_try_def)

text \<open>
  Claim C7. Loading the ledger never fails: for a file that is missing or unreadable, for
  a text that \<open>JSON.parse\<close> rejects, and whenever anything in the \<open>try\<close> block
  throws, the result is the empty set. For a text that parses to an array of distinct
  values the result is that array as a set; in particular, a ledger written by
  \<open>saveSentCache\<close> is read back as it was.
\<close>

theorem loadSentCache_total:
  "loadSentCache P Missing = []
   \<and> loadSentCache P Unreadable = []
   \<and> (P t = Thrown e \<longrightarrow> loadSentCache P (Content t) = [])
   \<and> (loadSentCache_try P f = Thrown e \<longrightarrow> loadSentCache P f = [])
   \<and> (P t = Returned (JArray l) \<and> distinct l \<longrightarrow> loadSentCache P (Content t) = l)
   \<and> (writeFileSync env i (JSON_stringify env (JArray (sentFiles s))) = Written
        \<and> P (JSON_stringify env (JArray (sentFiles s))) = Returned (JArray (sentFiles s))
        \<and> distinct (sentFiles s) \<longrightarrow>
      loadSentCache P (sent_cache_file (saveSentCache env i s)) = sentFiles s)"
proof (intro conjI impI)
  show "loadSentCache P Missing = []" by (simp add: loadSentCache_def loadSentCache_try_def)
  show "loadSentCache P Unreadable = []" by (simp add: loadSentCache_def loadSentCache_try_def)
  show "loadSentCache P (Content t) = []" if "P t = Thrown e"
    using that by (simp add: loadSentCache_def loadSentCache_try_def)
  show "loadSentCache P f = []" if "loadSentCache_try P f = Thrown e"
    using that by (simp add: loadSentCache_def)
  show "loadSentCache P (Content t) = l" if "P t = Returned (JArray l) \<and> distinct l"
    using that loadSentCache_array by blast
  show "loadSentCache P (sent_cache_file (saveSentCache env i s)) = sentFiles s"
    if "writeFileSync env i (JSON_stringify env (JArray (sentFiles s))) = Written
        \<and> P (JSON_stringify env (JArray (sentFiles s))) = Returned (JArray (sentFiles s))
        \<and> distinct (sentFiles s)"
    using that loadSentCache_array [of P "JSON_stringify env (JArray (sentFiles s))" "sentFiles s"]
    by (simp add: saveSentCache_def)
qed

theorem loadSentCache_total_witness:
  "example_parse ''not json'' = Thrown ''SyntaxError''
   \<and> loadSentCache example_parse (Content ''not json'') = []
   \<and> loadSentCache_try example_parse (Content ''{}'') = Thrown ''TypeError: value is not iterable''
   \<and> loadSentCache example_parse (Content ''{}'') = []
   \<and> example_parse ''[\"a.pdf\"]'' = Returned (JArray [JString ''a.pdf''])
   \<and> loadSentCache example_parse (Content ''[\"a.pdf\"]'') = [JString ''a.pdf'']
   \<and> writeFileSync ok_env 0 (JSON_stringify ok_env (JArray (sentFiles empty_state))) = Written
   \<and> loadSentCache example_parse (sent_cache_file (saveSentCache ok_env 0 empty_state)) =
       sentFiles empty_state"
proof -
  have 1: "example_parse ''not json'' = Thrown ''SyntaxError''"
    by (simp add: example_parse_def)
  have 2: "loadSentCache_try example_parse (Content ''{}'') = Thrown ''TypeError: value is not iterable''"
    by (simp add: loadSentCache_try_def example_parse_def)
  have 3: "example_parse ''[\"a.pdf\"]'' = Returned (JArray [JString ''a.pdf''])
      \<and> distinct [JString ''a.pdf'' :: unit json]"
    by (simp add: example_parse_def)
  have 4: "writeFileSync ok_env 0 (JSON_stringify ok_env (JArray (sentFiles empty_state))) = Written
        \<and> example_parse (JSON_stringify ok_env (JArray (sentFiles empty_state))) =
            Returned (JArray (sentFiles empty_state))
        \<and> distinct (sentFiles empty_state)"
    by (simp add: ok_env_def empty_state_def example_parse_def)
  show ?thesis
    using loadSentCache_total [of example_parse "''not json''" "''SyntaxError''"
        "Content ''{}''" "[]" ok_env 0 empty_state]
      loadSentCache_total [of example_parse "''[\"a.pdf\"]''" "''TypeError: value is not iterable''"
        "Content ''{}''" "[JString ''a.pdf'']" ok_env 0 empty_state]
      1 2 3 4
    by simp
qed

section \<open>Properties of the connection\<close>

lemma actions_act: "actions (act as b) = actions b @ as"
  by (simp add: act_def)

lemma starts_act: "starts (act as b) = starts b + length (filter (\<lambda>a. a = StartWhatsApp) as)"
  by (simp add: starts_def act_def)

lemma startWhatsApp_grows:
  "\<exists>as. actions (snd (startWhatsApp h b)) = actions b @ StartWhatsApp # as"
  by (simp add: startWhatsApp_def act_def split: outcome.splits)

lemma startWhatsApp_starts: "starts (snd (startWhatsApp h b)) = Suc (starts b)"
  by (simp add: startWhatsApp_def act_def starts_def split: outcome.splits)

lemma startWhatsApp_ok:
  assumes "mkdirSync h (starts b) = Returned x" and "useMultiFileAuthState h (starts b) = Returned y"
    and "fetchLatestBaileysVersion h (starts b) = Returned z"
  shows "startWhatsApp h b =
    (None, act [StartWhatsApp, MakeSocket, SetInterval Bucket, SetInterval Outbox,
                Call Bucket, Call Outbox] (b\<lparr>openedBrowser := openedBrowser b @ [False]\<rparr>))"
  using assms by (simp add: startWhatsApp_def)

lemma handle_qr_grows:
  "\<exists>as. actions (snd (handle_qr h k u b)) = actions b @ as \<and> StartWhatsApp \<notin> set as
      \<and> Call Bucket \<notin> set as \<and> Call Outbox \<notin> set as"
  by (simp add: handle_qr_def act_def split: option.splits outcome.splits)

lemma handle_qr_starts: "starts (snd (handle_qr h k u b)) = starts b"
  by (simp add: handle_qr_def act_def starts_def split: option.splits outcome.splits)

lemma handle_qr_none: "qr u = None \<Longrightarrow> handle_qr h k u b = (None, b)"
  by (simp add: handle_qr_def)

lemma handle_open_close: "connection u = Some Close \<Longrightarrow> handle_open u b = b"
  by (simp add: handle_open_def)

text \<open>
  Claim C5. On an update with \<open>connection === 'close'\<close>: when the close code is the
  logged-out code the handler never calls \<open>startWhatsApp\<close>; the number of calls stays
  as it was. For any other code the handler calls \<open>startWhatsApp\<close> once, directly
  after the warning, with nothing in between. The second and third part are stated for an
  update that carries no QR, and the last part for an update whose QR step does not
  throw.
\<close>

theorem close_reconnect_policy:
  "(connection u = Some Close \<and> close_code u = loggedOut h \<longrightarrow>
      starts (on_connection_update h k u b) = starts b)
   \<and> (connection u = Some Close \<and> qr u = None \<and> close_code u = loggedOut h \<longrightarrow>
      on_connection_update h k u b = act [WarnClosed (close_code u) False] b)
   \<and> (connection u = Some Close \<and> qr u = None \<and> close_code u \<noteq> loggedOut h \<longrightarrow>
      on_connection_update h k u b =
        snd (startWhatsApp h (act [WarnClosed (close_code u) True] b))
      \<and> starts (on_connection_update h k u b) = Suc (starts b)
      \<and> (\<exists>as. actions (on_connection_update h k u b) =
            actions b @ WarnClosed (close_code u) True # StartWhatsApp # as))
   \<and> (connection u = Some Close \<and> close_code u \<noteq> loggedOut h
        \<and> fst (handle_qr h k u b) = None \<longrightarrow>
      starts (on_connection_update h k u b) = Suc (starts b))"
proof (intro conjI impI)
  assume a: "connection u = Some Close \<and> close_code u = loggedOut h"
  obtain t b' where q: "handle_qr h k u b = (t, b')" by (cases "handle_qr h k u b") auto
  have s: "starts b' = starts b" using handle_qr_starts [of h k u b] q by simp
  show "starts (on_connection_update h k u b) = starts b"
  proof (cases t)
    case None
    then show ?thesis
      using a q s by (simp add: on_connection_update_def handle_open_close handle_close_def starts_act)
  next
    case (Some e)
    then show ?thesis using q s by (simp add: on_connection_update_def)
  qed
next
  assume "connection u = Some Close \<and> qr u = None \<and> close_code u = loggedOut h"
  then show "on_connection_update h k u b = act [WarnClosed (close_code u) False] b"
    by (simp add: on_connection_update_def handle_qr_none handle_open_close handle_close_def)
next
  assume a: "connection u = Some Close \<and> qr u = None \<and> close_code u \<noteq> loggedOut h"
  then show eq: "on_connection_update h k u b =
        snd (startWhatsApp h (act [WarnClosed (close_code u) True] b))"
    by (simp add: on_connection_update_def handle_qr_none handle_open_close handle_close_def)
  show "starts (on_connection_update h k u b) = Suc (starts b)"
    unfolding eq by (simp add: startWhatsApp_starts starts_act)
  show "\<exists>as. actions (on_connection_update h k u b) =
            actions b @ WarnClosed (close_code u) True # StartWhatsApp # as"
    unfolding eq using startWhatsApp_grows [of h "act [WarnClosed (close_code u) True] b"]
    by (simp add: actions_act)
next
  assume a: "connection u = Some Close \<and> close_code u \<noteq> loggedOut h
        \<and> fst (handle_qr h k u b) = None"
  obtain b' where q: "handle_qr h k u b = (None, b')"
    using a by (cases "handle_qr h k u b") auto
  have s: "starts b' = starts b" using handle_qr_starts [of h k u b] q by simp
  have "on_connection_update h k u b =
      snd (startWhatsApp h (act [WarnClosed (close_code u) True] b'))"
    using a q by (simp add: on_connection_update_def handle_open_close handle_close_def)
  then show "starts (on_connection_update h k u b) = Suc (starts b)"
    using s by (simp add: startWhatsApp_starts starts_act)
qed

lemma handle_close_grows: "\<exists>as. actions (handle_close h u b) = actions b @ as"
proof (cases "connection u = Some Close \<and> close_code u \<noteq> loggedOut h")
  case True
  then show ?thesis
    using startWhatsApp_grows [of h "act [WarnClosed (close_code u) True] b"]
    by (auto simp: handle_close_def actions_act)
next
  case False
  then show ?thesis by (auto simp: handle_close_def actions_act)
qed

lemma handle_open_actions:
  "actions (handle_open u b) = actions b @ (if connection u = Some Open then [LogConnected] else [])"
  by (simp add: handle_open_def act_def)

lemma on_connection_update_grows:
  "\<exists>as. actions (on_connection_update h k u b) = actions b @ as"
proof -
  obtain t b1 where q: "handle_qr h k u b = (t, b1)" by (cases "handle_qr h k u b") auto
  obtain as1 where 1: "actions b1 = actions b @ as1"
    using handle_qr_grows [of h k u b] q by auto
  show ?thesis
  proof (cases t)
    case None
    obtain as3 where 3: "actions (handle_close h u (handle_open u b1)) =
        actions (handle_open u b1) @ as3"
      using handle_close_grows by blast
    show ?thesis using None q 1 3 by (simp add: on_connection_update_def handle_open_actions)
  next
    case (Some e)
    then show ?thesis using q 1 by (simp add: on_connection_update_def)
  qed
qed

lemma dispatch_grows: "\<exists>as. actions (dispatch h b ev) = actions b @ as"
proof (cases ev)
  case (ConnectionUpdate k u)
  then show ?thesis using on_connection_update_grows [of h k u b] by auto
next
  case (Tick p)
  then show ?thesis by (auto simp: actions_act)
qed

lemma foldl_dispatch_grows: "\<exists>as. actions (foldl (dispatch h) b evs) = actions b @ as"
proof (induction evs arbitrary: b)
  case Nil
  then show ?case by simp
next
  case (Cons ev evs)
  obtain as1 where 1: "actions (dispatch h b ev) = actions b @ as1"
    using dispatch_grows by blast
  obtain as2 where 2: "actions (foldl (dispatch h) (dispatch h b ev) evs) =
      actions (dispatch h b ev) @ as2"
    using Cons.IH by blast
  show ?case using 1 2 by simp
qed

lemma takeWhile_prefix: "set (takeWhile P xs) \<subseteq> set (takeWhile P (xs @ ys))"
  by (induction xs) auto

lemma before_open_append: "before_open a xs \<Longrightarrow> before_open a (xs @ ys)"
  unfolding before_open_def
  using takeWhile_prefix [of "\<lambda>c. c \<noteq> LogConnected" xs ys] by blast

lemma boot_ok:
  assumes "mkdirSync h 0 = Returned x" and "useMultiFileAuthState h 0 = Returned y"
    and "fetchLatestBaileysVersion h 0 = Returned z"
  shows "actions (boot h) =
    [StartWhatsApp, MakeSocket, SetInterval Bucket, SetInterval Outbox, Call Bucket, Call Outbox]"
  using assms by (simp add: boot_def startWhatsApp_def starts_def act_def)

lemma run_extends_boot: "\<exists>as. actions (run h evs) = actions (boot h) @ as"
  unfolding run_def by (rule foldl_dispatch_grows)

lemma boot_before_open:
  assumes "mkdirSync h 0 = Returned x" and "useMultiFileAuthState h 0 = Returned y"
    and "fetchLatestBaileysVersion h 0 = Returned z"
    and "a \<in> {SetInterval Bucket, SetInterval Outbox, Call Bucket, Call Outbox}"
  shows "before_open a (actions (run h evs))"
proof -
  have "before_open a (actions (boot h))"
    using assms(4) by (auto simp: boot_ok [OF assms(1-3)] before_open_def)
  moreover obtain as where "actions (run h evs) = actions (boot h) @ as"
    using run_extends_boot by blast
  ultimately show ?thesis using before_open_append by simp
qed

text \<open>
  Cycles run before the connection is open: the first call of \<open>startWhatsApp\<close> sets
  both timers and calls both pollers, and no update has been handled yet, so a cycle of the
  bucket poller and a cycle of the outbox poller have both begun before any \<open>open\<close>
  update.
\<close>

theorem cycles_before_open_counterexample:
  "actions (run good_host []) =
     [StartWhatsApp, MakeSocket, SetInterval Bucket, SetInterval Outbox, Call Bucket, Call Outbox]
   \<and> before_open (Call Bucket) (actions (run good_host []))
   \<and> before_open (Call Outbox) (actions (run good_host []))"
  by (simp add: run_def boot_def startWhatsApp_def starts_def act_def good_host_def
      before_open_def)

text \<open>
  Claim C4, amended. \<open>startWhatsApp\<close> itself sets both timers and calls both pollers
  once, right after the socket is made. Handling an \<open>open\<close> update only logs and clears
  the QR: it adds no other action and leaves the \<open>openedBrowser\<close> flags as they are. So
  in every run whose first \<open>startWhatsApp\<close> succeeds, the timer of each poller has been
  set and a cycle of each poller has started before any \<open>open\<close> update is handled.
\<close>

theorem schedulers_start_with_startWhatsApp:
  "(mkdirSync h (starts b) = Returned x \<and> useMultiFileAuthState h (starts b) = Returned y
      \<and> fetchLatestBaileysVersion h (starts b) = Returned z \<longrightarrow>
      actions (snd (startWhatsApp h b)) =
        actions b @ [StartWhatsApp, MakeSocket, SetInterval Bucket, SetInterval Outbox,
                     Call Bucket, Call Outbox])
   \<and> actions (handle_open u b) =
        actions b @ (if connection u = Some Open then [LogConnected] else [])
   \<and> latestQRDataURL (handle_open u b) =
        (if connection u = Some Open then [] else latestQRDataURL b)
   \<and> openedBrowser (handle_open u b) = openedBrowser b
   \<and> (mkdirSync h 0 = Returned x \<and> useMultiFileAuthState h 0 = Returned y
        \<and> fetchLatestBaileysVersion h 0 = Returned z \<longrightarrow>
      before_open (SetInterval Bucket) (actions (run h evs))
      \<and> before_open (SetInterval Outbox) (actions (run h evs))
      \<and> before_open (Call Bucket) (actions (run h evs))
      \<and> before_open (Call Outbox) (actions (run h evs)))"
proof -
  have started: "actions (snd (startWhatsApp h b)) =
        actions b @ [StartWhatsApp, MakeSocket, SetInterval Bucket, SetInterval Outbox,
                     Call Bucket, Call Outbox]"
    if "mkdirSync h (starts b) = Returned x \<and> useMultiFileAuthState h (starts b) = Returned y
      \<and> fetchLatestBaileysVersion h (starts b) = Returned z"
    using that by (simp add: startWhatsApp_ok actions_act)
  have logs: "actions (handle_open u b) =
        actions b @ (if connection u = Some Open then [LogConnected] else [])"
    by (rule handle_open_actions)
  have clears: "latestQRDataURL (handle_open u b) =
        (if connection u = Some Open then [] else latestQRDataURL b)"
    by (simp add: handle_open_def act_def)
  have flags: "openedBrowser (handle_open u b) = openedBrowser b"
    by (simp add: handle_open_def act_def)
  have early: "before_open a (actions (run h evs))"
    if "mkdirSync h 0 = Returned x \<and> useMultiFileAuthState h 0 = Returned y
        \<and> fetchLatestBaileysVersion h 0 = Returned z"
      and "a \<in> {SetInterval Bucket, SetInterval Outbox, Call Bucket, Call Outbox}" for a
    using that boot_before_open by blast
  show ?thesis
    using started logs clears flags early [of "SetInterval Bucket"]
      early [of "SetInterval Outbox"] early [of "Call Bucket"] early [of "Call Outbox"]
    by simp
qed

theorem schedulers_start_with_startWhatsApp_witness:
  "mkdirSync good_host (starts pairing_bot) = Returned ()
   \<and> useMultiFileAuthState good_host (starts pairing_bot) = Returned ()
   \<and> fetchLatestBaileysVersion good_host (starts pairing_bot) = Returned ()
   \<and> actions (snd (startWhatsApp good_host pairing_bot)) =
        actions pairing_bot @ [StartWhatsApp, MakeSocket, SetInterval Bucket, SetInterval Outbox,
                     Call Bucket, Call Outbox]
   \<and> actions (handle_open open_update pairing_bot) = actions pairing_bot @ [LogConnected]
   \<and> latestQRDataURL pairing_bot = ''data:image/png;base64,2@abc''
   \<and> latestQRDataURL (handle_open open_update pairing_bot) = []
   \<and> openedBrowser (handle_open open_update pairing_bot) = openedBrowser pairing_bot
   \<and> mkdirSync good_host 0 = Returned ()
   \<and> useMultiFileAuthState good_host 0 = Returned ()
   \<and> fetchLatestBaileysVersion good_host 0 = Returned ()
   \<and> before_open (SetInterval Bucket)
        (actions (run good_host [ConnectionUpdate 0 open_update, Tick Bucket]))
   \<and> before_open (SetInterval Outbox)
        (actions (run good_host [ConnectionUpdate 0 open_update, Tick Bucket]))
   \<and> before_open (Call Bucket)
        (actions (run good_host [ConnectionUpdate 0 open_update, Tick Bucket]))
   \<and> before_open (Call Outbox)
        (actions (run good_host [ConnectionUpdate 0 open_update, Tick Bucket]))"
proof -
  have 1: "mkdirSync good_host n = Returned ()" "useMultiFileAuthState good_host n = Returned ()"
    "fetchLatestBaileysVersion good_host n = Returned ()" for n
    by (simp_all add: good_host_def)
  have 2: "connection open_update = Some Open" by (simp add: open_update_def)
  have 3: "latestQRDataURL pairing_bot = ''data:image/png;base64,2@abc''"
    by (simp add: pairing_bot_def)
  show ?thesis
    using schedulers_start_with_startWhatsApp [of good_host pairing_bot "()" "()" "()" open_update
        "[ConnectionUpdate 0 open_update, Tick Bucket]"] 1 2 3
    by simp
qed

theorem close_reconnect_policy_witness:
  "connection logout_update = Some Close \<and> qr logout_update = None
   \<and> close_code logout_update = loggedOut good_host
   \<and> on_connection_update good_host 0 logout_update first_bot =
       act [WarnClosed 401 False] first_bot
   \<and> starts (on_connection_update good_host 0 logout_update first_bot) = starts first_bot
   \<and> connection drop_update = Some Close \<and> qr drop_update = None
   \<and> close_code drop_update \<noteq> loggedOut good_host
   \<and> starts (on_connection_update good_host 0 drop_update first_bot) = Suc (starts first_bot)
   \<and> actions (on_connection_update good_host 0 drop_update first_bot) =
       actions first_bot @ [WarnClosed 428 True, StartWhatsApp, MakeSocket, SetInterval Bucket,
         SetInterval Outbox, Call Bucket, Call Outbox]
   \<and> fst (handle_qr good_host 0 drop_update first_bot) = None"
proof -
  have 1: "connection logout_update = Some Close \<and> qr logout_update = None
      \<and> close_code logout_update = loggedOut good_host"
    by (simp add: logout_update_def close_code_def good_host_def)
  have 2: "connection drop_update = Some Close \<and> qr drop_update = None
      \<and> close_code drop_update \<noteq> loggedOut good_host"
    by (simp add: drop_update_def close_code_def good_host_def)
  have 3: "close_code logout_update = 401" "close_code drop_update = 428"
    by (simp_all add: logout_update_def drop_update_def close_code_def)
  have 4: "actions (snd (startWhatsApp good_host (act [WarnClosed 428 True] first_bot))) =
      actions first_bot @ [WarnClosed 428 True, StartWhatsApp, MakeSocket, SetInterval Bucket,
         SetInterval Outbox, Call Bucket, Call Outbox]"
    by (simp add: startWhatsApp_def good_host_def act_def)
  have 5: "fst (handle_qr good_host 0 drop_update first_bot) = None"
    by (simp add: handle_qr_def drop_update_def)
  show ?thesis
    using close_reconnect_policy [of logout_update good_host 0 first_bot]
      close_reconnect_policy [of drop_update good_host 0 first_bot] 1 2 3 4 5
    by (simp add: starts_act startWhatsApp_starts)
qed

end
